theory Spec2Isabelle
  imports Complex_Main
begin

section \<open>Image redaction engine of \<open>scripts/anonymize_pdf.py\<close>\<close>

text \<open>
  A shallow embedding of the image-layer redaction of \<open>scripts/anonymize_pdf.py\<close>:
  \<open>_fuzzy_match\<close>, \<open>sample_bg_color\<close>, \<open>_ocr_image\<close> and \<open>redact_image\<close>.

  Python strings are \<open>string\<close> (a list of \<open>char\<close>); a \<open>char\<close> is a code point below
  256, so the model covers Latin-1 text, where \<open>str.lower\<close> maps each capital to its small
  letter and keeps the length of the string. Python
  integers are \<open>int\<close>, positions in a sequence are \<open>nat\<close>. An exception is a value of the
  type \<open>error\<close>, and a function that may raise returns \<open>error + 'a\<close>.
\<close>

subsection \<open>Strings\<close>

text \<open>
  The characters \<open>str.isspace\<close> accepts below code point 256: the space, the controls
  0x09 to 0x0D and 0x1C to 0x1F, the next-line control 0x85 and the no-break space 0xA0.
\<close>

definition is_space :: "char \<Rightarrow> bool" where
  "is_space c = (c \<in> set [CHR '' '', CHR 0x09, CHR 0x0A, CHR 0x0B, CHR 0x0C, CHR 0x0D,
                            CHR 0x1C, CHR 0x1D, CHR 0x1E, CHR 0x1F, CHR 0x85, CHR 0xA0])"

text \<open>
  The capitals below code point 256 and their small letters: \<open>A\<close> to \<open>Z\<close>, and the
  Latin-1 capitals 0xC0 to 0xDE but for the multiplication sign 0xD7, each 0x20 below its
  small letter.
\<close>

definition upper_latin1 :: "char list" where
  "upper_latin1 =
     [CHR 0xC0, CHR 0xC1, CHR 0xC2, CHR 0xC3, CHR 0xC4, CHR 0xC5, CHR 0xC6, CHR 0xC7,
       CHR 0xC8, CHR 0xC9, CHR 0xCA, CHR 0xCB, CHR 0xCC, CHR 0xCD, CHR 0xCE, CHR 0xCF,
       CHR 0xD0, CHR 0xD1, CHR 0xD2, CHR 0xD3, CHR 0xD4, CHR 0xD5, CHR 0xD6, CHR 0xD8,
       CHR 0xD9, CHR 0xDA, CHR 0xDB, CHR 0xDC, CHR 0xDD, CHR 0xDE]"

definition lower_latin1 :: "char list" where
  "lower_latin1 =
     [CHR 0xE0, CHR 0xE1, CHR 0xE2, CHR 0xE3, CHR 0xE4, CHR 0xE5, CHR 0xE6, CHR 0xE7,
       CHR 0xE8, CHR 0xE9, CHR 0xEA, CHR 0xEB, CHR 0xEC, CHR 0xED, CHR 0xEE, CHR 0xEF,
       CHR 0xF0, CHR 0xF1, CHR 0xF2, CHR 0xF3, CHR 0xF4, CHR 0xF5, CHR 0xF6, CHR 0xF8,
       CHR 0xF9, CHR 0xFA, CHR 0xFB, CHR 0xFC, CHR 0xFD, CHR 0xFE]"

definition lower_char :: "char \<Rightarrow> char" where
  "lower_char c =
     (case map_of (zip (''ABCDEFGHIJKLMNOPQRSTUVWXYZ'' @ upper_latin1)
                       (''abcdefghijklmnopqrstuvwxyz'' @ lower_latin1)) c of
        Some d \<Rightarrow> d
      | None \<Rightarrow> c)"

text \<open>\<open>s.lower()\<close>\<close>

definition lower :: "string \<Rightarrow> string" where
  "lower s = map lower_char s"

text \<open>\<open>s.strip()\<close>: leading and trailing whitespace removed.\<close>

definition strip :: "string \<Rightarrow> string" where
  "strip s = rev (dropWhile is_space (rev (dropWhile is_space s)))"

text \<open>
  \<open>s.split()\<close> with no argument: the maximal runs of characters that are not whitespace,
  in order; never an empty word. \<open>cur\<close> is the word being read.
\<close>

fun split_from :: "string \<Rightarrow> string \<Rightarrow> string list" where
  "split_from cur [] = (if cur = [] then [] else [cur])"
| "split_from cur (c # cs) =
     (if is_space c then (if cur = [] then split_from [] cs else cur # split_from [] cs)
      else split_from (cur @ [c]) cs)"

definition split :: "string \<Rightarrow> string list" where
  "split s = split_from [] s"

subsection \<open>The fuzzy matcher\<close>

text \<open>
  \<open>_fuzzy_match(ocr_word, target, threshold=0.75)\<close>, lines 173 to 193. The quotient
  \<open>matches / shorter\<close> is a Python float; the model takes it in \<open>rat\<close>. Both agree on
  the comparison with 0.75: the float is the quotient rounded to the nearest double,
  rounding is monotone and 0.75 is a double, so the rounded quotient is below 0.75
  exactly when the quotient is, as long as it is not within half a unit in the last place
  of 0.75, and a quotient of naturals with denominator \<open>shorter\<close> other than 3/4 differs
  from 3/4 by at least \<open>1 / (4 * shorter)\<close>.
\<close>

definition fuzzy_match_at :: "rat \<Rightarrow> string \<Rightarrow> string \<Rightarrow> bool" where
  "fuzzy_match_at threshold ocr_word target =
     (if ocr_word = [] \<or> target = [] then False
      else if lower ocr_word = lower target then True
      else if \<bar>int (length ocr_word) - int (length target)\<bar> > 2 then False
      else if length target \<le> 3 then False
      else
        (let shorter = min (length ocr_word) (length target);
             matches = length (filter (\<lambda>(a, b). a = b) (zip (lower ocr_word) (lower target)))
         in of_nat matches / of_nat shorter \<ge> threshold))"

text \<open>Every call in the program leaves \<open>threshold\<close> at its default.\<close>

definition fuzzy_match :: "string \<Rightarrow> string \<Rightarrow> bool" where
  "fuzzy_match ocr_word target = fuzzy_match_at (3 / 4) ocr_word target"

subsection \<open>Exceptions\<close>

datatype error = IndexError | KeyError | ValueError | TesseractNotFoundError | LibraryError

definition bind_err :: "error + 'a \<Rightarrow> ('a \<Rightarrow> error + 'b) \<Rightarrow> error + 'b" where
  "bind_err m f = (case m of Inl e \<Rightarrow> Inl e | Inr v \<Rightarrow> f v)"

text \<open>
  A \<open>for\<close> loop over a list whose body updates a state and may raise; \<open>continue\<close> is
  \<open>Inr st\<close>, a raise ends the loop.
\<close>

fun for_each :: "('a \<Rightarrow> 's \<Rightarrow> error + 's) \<Rightarrow> 'a list \<Rightarrow> 's \<Rightarrow> error + 's" where
  "for_each body [] st = Inr st"
| "for_each body (x # xs) st =
     (case body x st of Inl e \<Rightarrow> Inl e | Inr st' \<Rightarrow> for_each body xs st')"

subsection \<open>Images: the interface to Pillow\<close>

text \<open>
  A pixel value is a tuple of integers (\<open>tuple[int, ...]\<close>), a box is
  \<open>(x, y, x2, y2)\<close>. Pillow is not part of the repository: the operations the program
  calls on an image are a parameter of the model, a record of functions over any type
  \<open>'img\<close> of images. \<open>getpixel\<close>, \<open>draw_rectangle\<close> (\<open>ImageDraw.rectangle\<close> with a fill)
  and \<open>draw_text\<close> (\<open>ImageDraw.text\<close> at a position, with a fill and the font that
  \<open>get_font\<close> loads for a size) may raise; drawing returns the image drawn on.
\<close>

type_synonym color = "int list"

type_synonym box = "int \<times> int \<times> int \<times> int"

record 'img pil =
  img_mode :: "'img \<Rightarrow> string"
  convert_rgb :: "'img \<Rightarrow> 'img"
  img_width :: "'img \<Rightarrow> int"
  img_height :: "'img \<Rightarrow> int"
  resize :: "'img \<Rightarrow> int \<times> int \<Rightarrow> 'img"
  getpixel :: "'img \<Rightarrow> int \<times> int \<Rightarrow> error + color"
  draw_rectangle :: "'img \<Rightarrow> box \<Rightarrow> color \<Rightarrow> error + 'img"
  draw_text :: "'img \<Rightarrow> int \<times> int \<Rightarrow> string \<Rightarrow> color \<Rightarrow> int \<Rightarrow> error + 'img"

subsection \<open>Background colour sampling\<close>

text \<open>\<open>range(lo, hi)\<close> over integers.\<close>

definition py_range :: "int \<Rightarrow> int \<Rightarrow> int list" where
  "py_range lo hi = [lo..hi - 1]"

text \<open>
  The coordinates \<open>sample_bg_color\<close> reads, in the order of its two loops (lines 145 to
  150): for each column of the clamped horizontal range the top and the bottom row, then
  for each row of the clamped vertical range the left and the right column.
\<close>

definition sample_points :: "int \<Rightarrow> int \<Rightarrow> int \<Rightarrow> int \<Rightarrow> int \<Rightarrow> int \<Rightarrow> int \<Rightarrow> (int \<times> int) list" where
  "sample_points iw ih x y w h margin =
     concat (map (\<lambda>dx. map (\<lambda>dy_val. (dx, dy_val))
                    [max 0 (y - margin), min (ih - 1) (y + h + margin)])
               (py_range (max 0 (x - margin)) (min iw (x + w + margin))))
     @ concat (map (\<lambda>dy. map (\<lambda>dx_val. (dx_val, dy))
                      [max 0 (x - margin), min (iw - 1) (x + w + margin)])
                 (py_range (max 0 (y - margin)) (min ih (y + h + margin))))"

text \<open>\<open>pixels.append(img.getpixel(p))\<close> for each coordinate; the first raise ends it.\<close>

fun read_pixels :: "'img pil \<Rightarrow> 'img \<Rightarrow> (int \<times> int) list \<Rightarrow> error + color list" where
  "read_pixels P img [] = Inr []"
| "read_pixels P img (p # ps) =
     (case getpixel P img p of
        Inl e \<Rightarrow> Inl e
      | Inr c \<Rightarrow> (case read_pixels P img ps of Inl e \<Rightarrow> Inl e | Inr cs \<Rightarrow> Inr (c # cs)))"

text \<open>
  \<open>collections.Counter\<close>: a dict from element to count, in the order of first
  occurrence. \<open>counter_add\<close> is \<open>counter[x] += 1\<close>.
\<close>

fun counter_add :: "'a \<Rightarrow> ('a \<times> nat) list \<Rightarrow> ('a \<times> nat) list" where
  "counter_add x [] = [(x, 1)]"
| "counter_add x ((y, n) # rest) =
     (if x = y then (y, Suc n) # rest else (y, n) # counter_add x rest)"

definition Counter :: "'a list \<Rightarrow> ('a \<times> nat) list" where
  "Counter xs = foldl (\<lambda>c x. counter_add x c) [] xs"

text \<open>
  \<open>counter.most_common(1)[0][0]\<close>. \<open>most_common(1)\<close> is \<open>max\<close> over the items by count,
  which keeps the first item of maximal count; \<open>[0]\<close> raises on an empty list.
\<close>

fun max_first :: "'a \<times> nat \<Rightarrow> ('a \<times> nat) list \<Rightarrow> 'a \<times> nat" where
  "max_first best [] = best"
| "max_first best (e # es) = max_first (if snd best < snd e then e else best) es"

definition most_common1 :: "('a \<times> nat) list \<Rightarrow> error + 'a" where
  "most_common1 c = (case c of [] \<Rightarrow> Inl IndexError | e # es \<Rightarrow> Inr (fst (max_first e es)))"

text \<open>\<open>sample_bg_color(img, x, y, w, h, margin=4)\<close>, lines 141 to 154.\<close>

definition sample_bg_color ::
  "'img pil \<Rightarrow> 'img \<Rightarrow> int \<Rightarrow> int \<Rightarrow> int \<Rightarrow> int \<Rightarrow> int \<Rightarrow> error + color" where
  "sample_bg_color P img x y w h margin =
     (case read_pixels P img
             (sample_points (img_width P img) (img_height P img) x y w h margin) of
        Inl e \<Rightarrow> Inl e
      | Inr pixels \<Rightarrow>
          if pixels = [] then Inr [255, 255, 255] else most_common1 (Counter pixels))"

subsection \<open>OCR tokens\<close>

text \<open>
  The token source returns a dict of parallel lists (\<open>text\<close>, \<open>conf\<close>, \<open>left\<close>, \<open>top\<close>,
  \<open>width\<close>, \<open>height\<close>) of one length; the model has the list of the rows.
\<close>

record token =
  t_text :: string
  t_conf :: int
  t_left :: int
  t_top :: int
  t_width :: int
  t_height :: int




subsection \<open>Dictionaries\<close>

text \<open>
  A Python dict is the list of its items in insertion order, the keys distinct.
  \<open>dict_set\<close> is \<open>d[k] = v\<close>: a key that is present keeps its place.
\<close>

fun dict_set :: "('k \<times> 'v) list \<Rightarrow> 'k \<Rightarrow> 'v \<Rightarrow> ('k \<times> 'v) list" where
  "dict_set [] k v = [(k, v)]"
| "dict_set ((k', v') # d) k v =
     (if k' = k then (k', v) # d else (k', v') # dict_set d k v)"

definition dict_get :: "('k \<times> 'v) list \<Rightarrow> 'k \<Rightarrow> error + 'v" where
  "dict_get d k = (case map_of d k of None \<Rightarrow> Inl KeyError | Some v \<Rightarrow> Inr v)"

text \<open>\<open>lc_map = {k.lower(): v for k, v in name_map.items()}\<close>, line 263.\<close>

definition lc_map_of :: "(string \<times> string) list \<Rightarrow> (string \<times> string) list" where
  "lc_map_of name_map = foldl (\<lambda>d (k, v). dict_set d (lower k) v) [] name_map"

text \<open>
  \<open>sorted(lc_map.keys(), key=len, reverse=True)\<close>, line 270: a stable sort, descending
  in the length of the key; keys of one length keep the order of the dict.
\<close>

definition sorted_names :: "(string \<times> string) list \<Rightarrow> string list" where
  "sorted_names lc_map = sort_key (\<lambda>k. - int (length k)) (map fst lc_map)"

subsection \<open>The redaction state\<close>

text \<open>
  The state of one call of \<open>redact_image\<close>: the image drawn on, \<open>used_indices\<close> and
  \<open>count\<close>. \<open>spans\<close> is the trace of the redactions made, in the order they were made:
  one entry for each time the program paints, with the pass, the first and last token
  index, the replacement drawn and the box passed to \<open>draw.rectangle\<close>.
\<close>

datatype pass_id = NamePass | WordPass | ExtraPass

record span =
  sp_pass :: pass_id
  sp_first :: nat
  sp_last :: nat
  sp_repl :: string
  sp_box :: box

record 'img redaction =
  canvas :: 'img
  used_indices :: "nat set"
  count :: int
  spans :: "span list"

text \<open>The tokens \<open>i\<close> to \<open>i + k - 1\<close>; an index past the end raises.\<close>

definition window :: "token list \<Rightarrow> nat \<Rightarrow> nat \<Rightarrow> error + token list" where
  "window toks i k = (if i + k \<le> length toks then Inr (take k (drop i toks)) else Inl IndexError)"

text \<open>
  The box of a span of several tokens, lines 297 to 302 and 374 to 379: \<open>x\<close> is the left
  of the first token, \<open>y\<close> the least top, \<open>x2\<close> the right edge of the last token, \<open>y2\<close> the
  greatest bottom. \<open>min\<close> of no value raises.
\<close>

definition span_box :: "token list \<Rightarrow> error + box" where
  "span_box ws =
     (case ws of
        [] \<Rightarrow> Inl ValueError
      | t # ts \<Rightarrow>
          Inr (t_left t,
               fold min (map t_top ts) (t_top t),
               t_left (last ws) + t_width (last ws),
               fold max (map (\<lambda>u. t_top u + t_height u) ts) (t_top t + t_height t)))"

text \<open>
  Lines 307 and 308: black text on a background brighter than 128, white otherwise.
  \<open>sum(bg[:3]) / 3\<close> is a float, taken in \<open>rat\<close>.
\<close>

definition text_color :: "color \<Rightarrow> color" where
  "text_color bg =
     (let brightness = (if 3 \<le> length bg then of_int (sum_list (take 3 bg)) / 3 else (128 :: rat))
      in if 128 < brightness then [0, 0, 0] else [255, 255, 255])"

subsection \<open>Pass 1: names of several words\<close>

text \<open>
  The loop over \<open>enumerate(name_words)\<close>, lines 281 to 292, from token \<open>idx\<close> on: the
  value of \<open>matched\<close>.
\<close>

fun name_window_match :: "token list \<Rightarrow> nat set \<Rightarrow> nat \<Rightarrow> string list \<Rightarrow> error + bool" where
  "name_window_match toks used idx [] = Inr True"
| "name_window_match toks used idx (nw # nws) =
     (if idx \<in> used then Inr False
      else if length toks \<le> idx then Inl IndexError
      else if \<not> fuzzy_match (strip (t_text (toks ! idx))) nw then Inr False
      else if t_conf (toks ! idx) < 0 then Inr False
      else name_window_match toks used (Suc idx) nws)"

text \<open>Lines 296 to 312: the redaction of a matched window.\<close>

definition redact_name_span ::
  "'img pil \<Rightarrow> token list \<Rightarrow> (string \<times> string) list \<Rightarrow> string \<Rightarrow> string list \<Rightarrow> nat
     \<Rightarrow> 'img redaction \<Rightarrow> error + 'img redaction" where
  "redact_name_span P toks lc_map name_lc name_words i st =
     bind_err (dict_get lc_map name_lc) (\<lambda>repl.
     bind_err (window toks i (length name_words)) (\<lambda>ws.
     bind_err (span_box ws) (\<lambda>(x, y, x2, y2).
       let w_box = x2 - x; h_box = y2 - y in
       bind_err (sample_bg_color P (canvas st) x y w_box h_box 4) (\<lambda>bg.
       bind_err (draw_rectangle P (canvas st) (x, y, x2, y2) bg) (\<lambda>img1.
       bind_err (draw_text P img1 (x + 2, y + 1) repl (text_color bg) (max 10 (h_box - 4)))
         (\<lambda>img2.
           Inr \<lparr>canvas = img2,
                used_indices = used_indices st \<union> set [i..<i + length name_words],
                count = count st + 1,
                spans = spans st @
                  [\<lparr>sp_pass = NamePass, sp_first = i, sp_last = i + length name_words - 1,
                    sp_repl = repl, sp_box = (x, y, x2, y2)\<rparr>]\<rparr>))))))"

text \<open>The body of the loop over \<open>i\<close>, lines 277 to 312.\<close>

definition name_step ::
  "'img pil \<Rightarrow> token list \<Rightarrow> (string \<times> string) list \<Rightarrow> string \<Rightarrow> string list \<Rightarrow> nat
     \<Rightarrow> 'img redaction \<Rightarrow> error + 'img redaction" where
  "name_step P toks lc_map name_lc name_words i st =
     (if i \<in> used_indices st then Inr st
      else
        (case name_window_match toks (used_indices st) i name_words of
           Inl e \<Rightarrow> Inl e
         | Inr matched \<Rightarrow>
             if \<not> matched then Inr st
             else redact_name_span P toks lc_map name_lc name_words i st))"

text \<open>The body of the loop over \<open>sorted_names\<close>, lines 273 to 312.\<close>

definition name_term_step ::
  "'img pil \<Rightarrow> token list \<Rightarrow> (string \<times> string) list \<Rightarrow> string
     \<Rightarrow> 'img redaction \<Rightarrow> error + 'img redaction" where
  "name_term_step P toks lc_map name_lc st =
     (let name_words = split name_lc in
      if length name_words < 2 then Inr st
      else for_each (name_step P toks lc_map name_lc name_words)
             [0..<Suc (length toks) - length name_words] st)"

subsection \<open>Pass 2: single words\<close>

text \<open>The loop over \<open>lc_map.items()\<close>, lines 324 to 329: the value of \<open>matched_repl\<close>.\<close>

fun find_name :: "(string \<times> string) list \<Rightarrow> string \<Rightarrow> string option" where
  "find_name [] w_lc = None"
| "find_name ((target, repl) # rest) w_lc =
     (if CHR '' '' \<in> set target then find_name rest w_lc
      else if fuzzy_match w_lc target then Some repl
      else find_name rest w_lc)"

text \<open>The loop over \<open>extra_lc\<close>, lines 333 to 337: the value of \<open>is_extra\<close>.\<close>

fun find_extra :: "string list \<Rightarrow> string \<Rightarrow> bool" where
  "find_extra [] w_lc = False"
| "find_extra (trm # rest) w_lc =
     (if CHR '' '' \<notin> set trm \<and> fuzzy_match w_lc trm then True else find_extra rest w_lc)"

text \<open>Lines 342 to 352: the redaction of one token.\<close>

definition redact_word ::
  "'img pil \<Rightarrow> token \<Rightarrow> nat \<Rightarrow> string \<Rightarrow> 'img redaction \<Rightarrow> error + 'img redaction" where
  "redact_word P t i matched_repl st =
     (let x = t_left t; y = t_top t; bw = t_width t; bh = t_height t in
      bind_err (sample_bg_color P (canvas st) x y bw bh 4) (\<lambda>bg.
      bind_err (draw_rectangle P (canvas st) (x, y, x + bw, y + bh) bg) (\<lambda>img1.
      bind_err (if matched_repl \<noteq> []
                then draw_text P img1 (x + 2, y + 1) matched_repl (text_color bg)
                       (max 10 (bh - 4))
                else Inr img1)
        (\<lambda>img2.
          Inr \<lparr>canvas = img2,
               used_indices = insert i (used_indices st),
               count = count st + 1,
               spans = spans st @
                 [\<lparr>sp_pass = WordPass, sp_first = i, sp_last = i,
                   sp_repl = matched_repl, sp_box = (x, y, x + bw, y + bh)\<rparr>]\<rparr>))))"

text \<open>The body of the loop over \<open>i\<close>, lines 316 to 352.\<close>

definition word_step ::
  "'img pil \<Rightarrow> token list \<Rightarrow> (string \<times> string) list \<Rightarrow> string list \<Rightarrow> nat
     \<Rightarrow> 'img redaction \<Rightarrow> error + 'img redaction" where
  "word_step P toks lc_map extra_lc i st =
     (if i \<in> used_indices st then Inr st
      else if length toks \<le> i then Inl IndexError
      else
        (let w = strip (t_text (toks ! i)) in
         if w = [] \<or> t_conf (toks ! i) < 0 then Inr st
         else
           (let w_lc = lower w;
                matched_repl =
                  (case find_name lc_map w_lc of
                     Some repl \<Rightarrow> Some repl
                   | None \<Rightarrow> if find_extra extra_lc w_lc then Some [] else None)
            in case matched_repl of
                 None \<Rightarrow> Inr st
               | Some repl \<Rightarrow> redact_word P (toks ! i) i repl st)))"

subsection \<open>Pass 3: extra terms of several words\<close>

text \<open>The loop over \<open>enumerate(term_words)\<close>, lines 363 to 371: the value of \<open>matched\<close>.\<close>

fun extra_window_match :: "token list \<Rightarrow> nat set \<Rightarrow> nat \<Rightarrow> string list \<Rightarrow> error + bool" where
  "extra_window_match toks used idx [] = Inr True"
| "extra_window_match toks used idx (tw # tws) =
     (if idx \<in> used then Inr False
      else if length toks \<le> idx then Inl IndexError
      else if \<not> fuzzy_match (strip (t_text (toks ! idx))) tw then Inr False
      else extra_window_match toks used (Suc idx) tws)"

text \<open>Lines 374 to 385: the redaction of a matched window, with no text drawn.\<close>

definition redact_extra_span ::
  "'img pil \<Rightarrow> token list \<Rightarrow> string list \<Rightarrow> nat \<Rightarrow> 'img redaction
     \<Rightarrow> error + 'img redaction" where
  "redact_extra_span P toks term_words i st =
     bind_err (window toks i (length term_words)) (\<lambda>ws.
     bind_err (span_box ws) (\<lambda>(x, y, x2, y2).
       let w_box = x2 - x; h_box = y2 - y in
       bind_err (sample_bg_color P (canvas st) x y w_box h_box 4) (\<lambda>bg.
       bind_err (draw_rectangle P (canvas st) (x, y, x2, y2) bg) (\<lambda>img1.
         Inr \<lparr>canvas = img1,
              used_indices = used_indices st \<union> set [i..<i + length term_words],
              count = count st + 1,
              spans = spans st @
                [\<lparr>sp_pass = ExtraPass, sp_first = i, sp_last = i + length term_words - 1,
                  sp_repl = [], sp_box = (x, y, x2, y2)\<rparr>]\<rparr>))))"

text \<open>The body of the loop over \<open>i\<close>, lines 360 to 385.\<close>

definition extra_step ::
  "'img pil \<Rightarrow> token list \<Rightarrow> string list \<Rightarrow> nat \<Rightarrow> 'img redaction
     \<Rightarrow> error + 'img redaction" where
  "extra_step P toks term_words i st =
     (if i \<in> used_indices st then Inr st
      else
        (case extra_window_match toks (used_indices st) i term_words of
           Inl e \<Rightarrow> Inl e
         | Inr matched \<Rightarrow>
             if \<not> matched then Inr st
             else redact_extra_span P toks term_words i st))"

text \<open>The body of the loop over \<open>extra_lc\<close>, lines 356 to 385.\<close>

definition extra_term_step ::
  "'img pil \<Rightarrow> token list \<Rightarrow> string \<Rightarrow> 'img redaction \<Rightarrow> error + 'img redaction" where
  "extra_term_step P toks trm st =
     (let term_words = split trm in
      if length term_words < 2 then Inr st
      else for_each (extra_step P toks term_words)
             [0..<Suc (length toks) - length term_words] st)"

subsection \<open>The redaction engine\<close>

text \<open>
  \<open>redact_image(img, name_map, extra_redact=None)\<close>, lines 240 to 387, returning the
  final state. \<open>ocr\<close> is the call \<open>_ocr_image(img)\<close> of line 251: it returns the tokens or
  raises. \<open>name_map\<close> is the list of the items of the dict.
\<close>

text \<open>Lines 247 and 248: an image of another mode is converted to RGB.\<close>

definition to_rgb :: "'img pil \<Rightarrow> 'img \<Rightarrow> 'img" where
  "to_rgb P img0 = (if img_mode P img0 \<noteq> ''RGB'' then convert_rgb P img0 else img0)"

definition redact_run ::
  "'img pil \<Rightarrow> ('img \<Rightarrow> error + token list) \<Rightarrow> 'img \<Rightarrow> (string \<times> string) list
     \<Rightarrow> string list option \<Rightarrow> error + 'img redaction" where
  "redact_run P ocr img0 name_map extra_redact =
     (let im = to_rgb P img0;
          st0 = \<lparr>canvas = im, used_indices = {}, count = 0, spans = []\<rparr>
      in case ocr im of
           Inl e \<Rightarrow> if e = TesseractNotFoundError then Inr st0 else Inl e
         | Inr toks \<Rightarrow>
             (let lc_map = lc_map_of name_map;
                  extra_lc = map lower (case extra_redact of None \<Rightarrow> [] | Some l \<Rightarrow> l)
              in bind_err (for_each (name_term_step P toks lc_map) (sorted_names lc_map) st0)
                   (\<lambda>st1.
                 bind_err (for_each (word_step P toks lc_map extra_lc) [0..<length toks] st1)
                   (\<lambda>st2.
                 for_each (extra_term_step P toks) extra_lc st2))))"

text \<open>What \<open>redact_image\<close> returns: the image and the count.\<close>

definition redact_image ::
  "'img pil \<Rightarrow> ('img \<Rightarrow> error + token list) \<Rightarrow> 'img \<Rightarrow> (string \<times> string) list
     \<Rightarrow> string list option \<Rightarrow> error + 'img \<times> int" where
  "redact_image P ocr img0 name_map extra_redact =
     (case redact_run P ocr img0 name_map extra_redact of
        Inl e \<Rightarrow> Inl e
      | Inr st \<Rightarrow> Inr (canvas st, count st))"


text \<open>
  No term matches: with nothing consumed, no window of the tokens matches a name of
  several words (pass 1), no token passes the tests of pass 2 and matches a single word,
  and no window matches an extra term of several words (pass 3). \<open>lc_map\<close> and
  \<open>extra_lc\<close> are the lowercased name map and extra terms.
\<close>

definition no_match :: "token list \<Rightarrow> (string \<times> string) list \<Rightarrow> string list \<Rightarrow> bool" where
  "no_match toks lc_map extra_lc \<longleftrightarrow>
     (\<forall>name_lc \<in> set (sorted_names lc_map).
        2 \<le> length (split name_lc) \<longrightarrow>
        (\<forall>i \<in> set [0..<Suc (length toks) - length (split name_lc)].
           name_window_match toks {} i (split name_lc) = Inr False)) \<and>
     (\<forall>i \<in> set [0..<length toks].
        strip (t_text (toks ! i)) = [] \<or> t_conf (toks ! i) < 0 \<or>
        (find_name lc_map (lower (strip (t_text (toks ! i)))) = None \<and>
         \<not> find_extra extra_lc (lower (strip (t_text (toks ! i)))))) \<and>
     (\<forall>trm \<in> set extra_lc.
        2 \<le> length (split trm) \<longrightarrow>
        (\<forall>i \<in> set [0..<Suc (length toks) - length (split trm)].
           extra_window_match toks {} i (split trm) = Inr False))"

subsection \<open>A raster that records what is drawn\<close>

text \<open>
  An implementation of the image interface, to run the model on concrete inputs: an image
  of one background colour and the list of the drawing operations applied to it, oldest
  first. A pixel has the colour of the last rectangle that covers it; text leaves the
  pixels as they are. \<open>getpixel\<close> counts a negative coordinate from the far edge and
  raises outside the image, as Pillow does.
\<close>

datatype draw_op = Rect box color | Label "int \<times> int" string color int

record raster =
  r_mode :: string
  r_width :: int
  r_height :: int
  r_base :: color
  r_ops :: "draw_op list"

fun pixel_of :: "draw_op list \<Rightarrow> color \<Rightarrow> int \<times> int \<Rightarrow> color" where
  "pixel_of [] c p = c"
| "pixel_of (Rect (x0, y0, x1, y1) fill # ops) c (px, py) =
     pixel_of ops (if x0 \<le> px \<and> px \<le> x1 \<and> y0 \<le> py \<and> py \<le> y1 then fill else c) (px, py)"
| "pixel_of (Label pos s fill sz # ops) c p = pixel_of ops c p"

definition raster_getpixel :: "raster \<Rightarrow> int \<times> int \<Rightarrow> error + color" where
  "raster_getpixel r p =
     (let x = (if fst p < 0 then r_width r + fst p else fst p);
          y = (if snd p < 0 then r_height r + snd p else snd p)
      in if x < 0 \<or> r_width r \<le> x \<or> y < 0 \<or> r_height r \<le> y then Inl IndexError
         else Inr (pixel_of (r_ops r) (r_base r) (x, y)))"

definition raster_pil :: "raster pil" where
  "raster_pil =
     \<lparr>img_mode = r_mode,
      convert_rgb = (\<lambda>r. r\<lparr>r_mode := ''RGB'', r_base := take 3 (r_base r)\<rparr>),
      img_width = r_width,
      img_height = r_height,
      resize = (\<lambda>r (w, h). r\<lparr>r_width := w, r_height := h\<rparr>),
      getpixel = raster_getpixel,
      draw_rectangle = (\<lambda>r b c. Inr (r\<lparr>r_ops := r_ops r @ [Rect b c]\<rparr>)),
      draw_text = (\<lambda>r pos s c sz. Inr (r\<lparr>r_ops := r_ops r @ [Label pos s c sz]\<rparr>))\<rparr>"

definition white_page :: raster where
  "white_page =
     \<lparr>r_mode = ''RGB'', r_width = 600, r_height = 100, r_base = [255, 255, 255], r_ops = []\<rparr>"

definition tok :: "string \<Rightarrow> int \<Rightarrow> int \<Rightarrow> int \<Rightarrow> int \<Rightarrow> int \<Rightarrow> token" where
  "tok s c l t w h =
     \<lparr>t_text = s, t_conf = c, t_left = l, t_top = t, t_width = w, t_height = h\<rparr>"


text \<open>A page with an alpha channel.\<close>

definition rgba_page :: raster where
  "rgba_page =
     \<lparr>r_mode = ''RGBA'', r_width = 600, r_height = 100, r_base = [1, 2, 3, 4], r_ops = []\<rparr>"

subsection \<open>Predicates on the trace\<close>

text \<open>The token indices of a span.\<close>

definition span_indices :: "span \<Rightarrow> nat set" where
  "span_indices s = set [sp_first s..<Suc (sp_last s)]"

text \<open>
  What holds of every span the program makes over the tokens \<open>toks\<close>: its indices are
  tokens; a span of pass 1 or 2 has no token of negative confidence; a span of pass 1 or
  3 has at least two tokens and the box of \<open>span_box\<close>.
\<close>

definition good_span :: "token list \<Rightarrow> span \<Rightarrow> bool" where
  "good_span toks s \<longleftrightarrow>
     sp_first s \<le> sp_last s \<and> sp_last s < length toks \<and>
     (sp_pass s \<noteq> ExtraPass \<longrightarrow> (\<forall>i \<in> span_indices s. 0 \<le> t_conf (toks ! i))) \<and>
     (sp_pass s \<noteq> WordPass \<longrightarrow>
        sp_first s < sp_last s \<and>
        sp_box s =
          (t_left (toks ! sp_first s),
           Min (t_top ` (!) toks ` span_indices s),
           t_left (toks ! sp_last s) + t_width (toks ! sp_last s),
           Max ((\<lambda>t. t_top t + t_height t) ` (!) toks ` span_indices s)))"

text \<open>No two spans of a trace share a token index.\<close>

definition disjoint_spans :: "span list \<Rightarrow> bool" where
  "disjoint_spans sps \<longleftrightarrow>
     (\<forall>i j. i < j \<and> j < length sps \<longrightarrow> span_indices (sps ! i) \<inter> span_indices (sps ! j) = {})"

text \<open>The invariant of the three passes.\<close>

definition trace_ok :: "token list \<Rightarrow> 'img redaction \<Rightarrow> bool" where
  "trace_ok toks st \<longleftrightarrow>
     (\<forall>s \<in> set (spans st). good_span toks s \<and> span_indices s \<subseteq> used_indices st) \<and>
     disjoint_spans (spans st)"

text \<open>
  A token stream on which each pass makes one redaction, with its name map and extra
  terms; and a name broken over two lines, the second token left of the first.
\<close>

definition demo_tokens :: "token list" where
  "demo_tokens =
     [tok ''Alan'' 90 10 10 40 12, tok ''Williams'' 88 60 12 80 12,
      tok ''Spwilliams'' 85 200 10 90 12, tok ''3273'' (- 1) 10 40 40 12,
      tok ''Streamside'' 90 60 40 100 14]"

definition demo_names :: "(string \<times> string) list" where
  "demo_names = [(''Alan Williams'', ''Bob Williams''), (''Spwilliams'', ''Bob'')]"

definition demo_extra :: "string list" where
  "demo_extra = [''3273 Streamside'']"

definition wrapped_tokens :: "token list" where
  "wrapped_tokens = [tok ''Alan'' 90 200 10 40 12, tok ''Williams'' 90 20 30 230 12]"

text \<open>
  The drawing that one entry of the trace stands for, on the canvas \<open>c\<close>: the background
  is sampled around the box of the span, \<open>draw.rectangle\<close> receives that box, and the
  replacement is drawn by pass 1, and by pass 2 when it is not empty.
\<close>

definition paint_span :: "'img pil \<Rightarrow> span \<Rightarrow> 'img \<Rightarrow> error + 'img" where
  "paint_span P s c =
     (case sp_box s of (x, y, x2, y2) \<Rightarrow>
        bind_err (sample_bg_color P c x y (x2 - x) (y2 - y) 4) (\<lambda>bg.
        bind_err (draw_rectangle P c (x, y, x2, y2) bg) (\<lambda>img1.
          if sp_pass s = NamePass \<or> (sp_pass s = WordPass \<and> sp_repl s \<noteq> [])
          then draw_text P img1 (x + 2, y + 1) (sp_repl s) (text_color bg)
                 (max 10 (y2 - y - 4))
          else Inr img1)))"

section \<open>Properties\<close>

subsection \<open>The fuzzy matcher\<close>



text \<open>
  Claim C5, as the code has it. A target of at most three characters is matched by an
  observed string exactly when both are non-empty and equal up to case. The claim as
  stated leaves the non-emptiness out: \<open>_fuzzy_match\<close> returns False when either string is
  empty (line 179), also for two empty strings, which are equal up to case.
\<close>

theorem fuzzy_match_short_target:
  "length target \<le> 3 \<Longrightarrow>
     fuzzy_match ocr_word target \<longleftrightarrow>
       ocr_word \<noteq> [] \<and> target \<noteq> [] \<and> lower ocr_word = lower target"
  by (simp add: fuzzy_match_def fuzzy_match_at_def)

theorem fuzzy_match_short_target_witness:
  "length ''Bob'' \<le> 3 \<and> fuzzy_match ''BOB'' ''Bob'' \<and> \<not> fuzzy_match ''B0b'' ''Bob'' \<and>
   lower ''BOB'' = lower ''Bob'' \<and> lower ''B0b'' \<noteq> lower ''Bob''"
  using fuzzy_match_short_target [of "''Bob''" "''BOB''"]
    fuzzy_match_short_target [of "''Bob''" "''B0b''"]
  by (simp add: lower_def lower_char_def upper_latin1_def lower_latin1_def)

text \<open>
  The claim C5 as stated fails on two empty strings: they are equal up to case, the target
  has at most three characters, and the matcher answers False.
\<close>

theorem fuzzy_match_empty_counterexample:
  "length ('''' :: string) \<le> 3 \<and> lower '''' = lower '''' \<and> \<not> fuzzy_match '''' ''''"
  by (simp add: fuzzy_match_def fuzzy_match_at_def)



subsection \<open>Background colour sampling\<close>













lemma white_page_far: "sample_bg_color raster_pil white_page 700 700 10 10 4 = Inr [255, 255, 255]"
  by code_simp



subsection \<open>The order of the names\<close>

lemma for_each_skip:
  "(\<And>x. x \<in> set xs \<Longrightarrow> body x st = Inr st) \<Longrightarrow> for_each body xs st = Inr st"
  by (induction xs) auto

lemma for_each_append:
  "for_each body (xs @ ys) st = bind_err (for_each body xs st) (for_each body ys)"
  by (induction xs arbitrary: st) (auto simp: bind_err_def split: sum.splits)



subsection \<open>No match, no engine\<close>

lemma redact_run_no_match:
  assumes "ocr (to_rgb P img0) = Inr toks"
    and "no_match toks (lc_map_of name_map) (map lower (case extra_redact of None \<Rightarrow> [] | Some l \<Rightarrow> l))"
  shows "redact_run P ocr img0 name_map extra_redact =
    Inr \<lparr>canvas = to_rgb P img0, used_indices = {}, count = 0, spans = []\<rparr>"
proof -
  let ?lc = "lc_map_of name_map"
  let ?ex = "map lower (case extra_redact of None \<Rightarrow> [] | Some l \<Rightarrow> l)"
  let ?st = "\<lparr>canvas = to_rgb P img0, used_indices = {}, count = 0, spans = []\<rparr>"
  from assms(2) have
    n1: "\<And>name_lc i. name_lc \<in> set (sorted_names ?lc) \<Longrightarrow> 2 \<le> length (split name_lc) \<Longrightarrow>
           i \<in> set [0..<Suc (length toks) - length (split name_lc)] \<Longrightarrow>
           name_window_match toks {} i (split name_lc) = Inr False" and
    n2: "\<And>i. i \<in> set [0..<length toks] \<Longrightarrow>
        strip (t_text (toks ! i)) = [] \<or> t_conf (toks ! i) < 0 \<or>
        (find_name ?lc (lower (strip (t_text (toks ! i)))) = None \<and>
         \<not> find_extra ?ex (lower (strip (t_text (toks ! i)))))" and
    n3: "\<And>trm i. trm \<in> set ?ex \<Longrightarrow> 2 \<le> length (split trm) \<Longrightarrow>
           i \<in> set [0..<Suc (length toks) - length (split trm)] \<Longrightarrow>
           extra_window_match toks {} i (split trm) = Inr False"
    unfolding no_match_def by blast+
  have p1: "for_each (name_term_step P toks ?lc) (sorted_names ?lc) ?st = Inr ?st"
  proof (rule for_each_skip)
    fix name_lc assume a: "name_lc \<in> set (sorted_names ?lc)"
    show "name_term_step P toks ?lc name_lc ?st = Inr ?st"
    proof (cases "length (split name_lc) < 2")
      case True
      then show ?thesis by (simp add: name_term_step_def)
    next
      case False
      have "for_each (name_step P toks ?lc name_lc (split name_lc))
             [0..<Suc (length toks) - length (split name_lc)] ?st = Inr ?st"
      proof (rule for_each_skip)
        fix i assume "i \<in> set [0..<Suc (length toks) - length (split name_lc)]"
        with n1 [OF a] False
        have "name_window_match toks {} i (split name_lc) = Inr False" by simp
        then show "name_step P toks ?lc name_lc (split name_lc) i ?st = Inr ?st"
          by (simp add: name_step_def)
      qed
      with False show ?thesis by (simp add: name_term_step_def)
    qed
  qed
  have p2: "for_each (word_step P toks ?lc ?ex) [0..<length toks] ?st = Inr ?st"
  proof (rule for_each_skip)
    fix i assume i: "i \<in> set [0..<length toks]"
    from n2 [OF i] i show "word_step P toks ?lc ?ex i ?st = Inr ?st"
      by (auto simp: word_step_def Let_def)
  qed
  have p3: "for_each (extra_term_step P toks) ?ex ?st = Inr ?st"
  proof (rule for_each_skip)
    fix trm assume a: "trm \<in> set ?ex"
    show "extra_term_step P toks trm ?st = Inr ?st"
    proof (cases "length (split trm) < 2")
      case True
      then show ?thesis by (simp add: extra_term_step_def)
    next
      case False
      have "for_each (extra_step P toks (split trm))
             [0..<Suc (length toks) - length (split trm)] ?st = Inr ?st"
      proof (rule for_each_skip)
        fix i assume "i \<in> set [0..<Suc (length toks) - length (split trm)]"
        with n3 [OF a] False
        have "extra_window_match toks {} i (split trm) = Inr False" by simp
        then show "extra_step P toks (split trm) i ?st = Inr ?st"
          by (simp add: extra_step_def)
      qed
      with False show ?thesis by (simp add: extra_term_step_def)
    qed
  qed
  from assms(1) p1 p2 p3 show ?thesis
    by (simp add: redact_run_def Let_def bind_err_def)
qed


text \<open>
  Claim C8, as the code has it. When no term matches the tokens, \<open>redact_image\<close> returns
  the image it works on with nothing drawn on it, and the count 0. That image is the
  input when its mode is RGB, and the conversion of the input to RGB otherwise.
\<close>

theorem redact_image_no_match:
  assumes "ocr (to_rgb P img0) = Inr toks"
    and "no_match toks (lc_map_of name_map)
           (map lower (case extra_redact of None \<Rightarrow> [] | Some l \<Rightarrow> l))"
  shows "redact_image P ocr img0 name_map extra_redact =
           Inr (if img_mode P img0 \<noteq> ''RGB'' then convert_rgb P img0 else img0, 0) \<and>
         redact_run P ocr img0 name_map extra_redact =
           Inr \<lparr>canvas = to_rgb P img0, used_indices = {}, count = 0, spans = []\<rparr>"
  using redact_run_no_match [of ocr P img0 toks name_map extra_redact] assms
  by (simp add: redact_image_def to_rgb_def)

lemma hello_world_no_match:
  "no_match [tok ''Hello'' 90 10 10 40 12, tok ''Williamson'' (- 1) 60 10 80 12]
     (lc_map_of [(''Alan Williams'', ''Bob Williams''), (''Williams'', ''X'')])
     (map lower (case Some [''3273 Streamside''] of None \<Rightarrow> [] | Some l \<Rightarrow> l))"
  by code_simp

theorem redact_image_no_match_witness:
  "no_match [tok ''Hello'' 90 10 10 40 12, tok ''Williamson'' (- 1) 60 10 80 12]
     (lc_map_of [(''Alan Williams'', ''Bob Williams''), (''Williams'', ''X'')])
     (map lower (case Some [''3273 Streamside''] of None \<Rightarrow> [] | Some l \<Rightarrow> l)) \<and>
   redact_image raster_pil
     (\<lambda>im. Inr [tok ''Hello'' 90 10 10 40 12, tok ''Williamson'' (- 1) 60 10 80 12]) white_page
     [(''Alan Williams'', ''Bob Williams''), (''Williams'', ''X'')] (Some [''3273 Streamside'']) =
   Inr (white_page, 0)"
  using redact_image_no_match [of "\<lambda>im. Inr [tok ''Hello'' 90 10 10 40 12, tok ''Williamson'' (- 1) 60 10 80 12]"
      raster_pil white_page "[tok ''Hello'' 90 10 10 40 12, tok ''Williamson'' (- 1) 60 10 80 12]"
      "[(''Alan Williams'', ''Bob Williams''), (''Williams'', ''X'')]" "Some [''3273 Streamside'']"]
    hello_world_no_match
  by (simp add: raster_pil_def white_page_def)

text \<open>
  The claim C8 as stated fails on an image whose mode is not RGB: with no token at all,
  the image returned is not the input, and its pixel at (0, 0) has another value.
\<close>

theorem redact_image_no_match_counterexample:
  "no_match [] (lc_map_of []) (map lower (case None of None \<Rightarrow> [] | Some l \<Rightarrow> l)) \<and>
   redact_image raster_pil (\<lambda>im. Inr []) rgba_page [] None =
     Inr (rgba_page\<lparr>r_mode := ''RGB'', r_base := [1, 2, 3]\<rparr>, 0) \<and>
   rgba_page\<lparr>r_mode := ''RGB'', r_base := [1, 2, 3]\<rparr> \<noteq> rgba_page \<and>
   getpixel raster_pil rgba_page (0, 0) = Inr [1, 2, 3, 4] \<and>
   getpixel raster_pil (rgba_page\<lparr>r_mode := ''RGB'', r_base := [1, 2, 3]\<rparr>) (0, 0) = Inr [1, 2, 3]"
  by code_simp




subsection \<open>The priority of the longer name\<close>

lemma alan_lc: "lc_map_of [(''Alan Williams'', ''Bob Williams''), (''Williams'', ''X'')] =
   [(''alan williams'', ''Bob Williams''), (''williams'', ''X'')]"
  by code_simp

lemma alan_sorted: "sorted_names [(''alan williams'', ''Bob Williams''), (''williams'', ''X'')] =
   [''alan williams'', ''williams'']"
  by code_simp

lemma alan_split: "split ''alan williams'' = [''alan'', ''williams'']" "split ''williams'' = [''williams'']"
  by code_simp+

lemma alan_fuzzy: "fuzzy_match (strip ''Alan'') ''alan''" "fuzzy_match (strip ''Williams'') ''williams''"
  by code_simp+

lemma bind_err_Inr: "bind_err (Inr v) f = f v"
  by (simp add: bind_err_def)

lemma bind_err_assoc: "bind_err (bind_err m f) g = bind_err m (\<lambda>v. bind_err (f v) g)"
  by (simp add: bind_err_def split: sum.splits)

text \<open>
  Claim C1. On the tokens "Alan" and "Williams", both of non-negative confidence, and the
  name map "Alan Williams" to "Bob Williams", "Williams" to "X", the run makes one
  redaction: it samples, fills and labels one box with "Bob Williams", and when that
  succeeds it ends with the count 1, both tokens consumed and one span, from token 0 to
  token 1, with that replacement. The name "Williams" makes no span: the run fails only
  where the drawing of the one span fails.
\<close>

theorem alan_williams_priority:
  assumes "ocr (to_rgb P img0) = Inr [t0, t1]"
    and "t_text t0 = ''Alan''" and "t_text t1 = ''Williams''"
    and "0 \<le> t_conf t0" and "0 \<le> t_conf t1"
  shows "redact_run P ocr img0 [(''Alan Williams'', ''Bob Williams''), (''Williams'', ''X'')] None =
     (let x = t_left t0; y = min (t_top t1) (t_top t0);
          x2 = t_left t1 + t_width t1;
          y2 = max (t_top t1 + t_height t1) (t_top t0 + t_height t0)
      in bind_err (sample_bg_color P (to_rgb P img0) x y (x2 - x) (y2 - y) 4) (\<lambda>bg.
         bind_err (draw_rectangle P (to_rgb P img0) (x, y, x2, y2) bg) (\<lambda>img1.
         bind_err (draw_text P img1 (x + 2, y + 1) ''Bob Williams'' (text_color bg)
                     (max 10 (y2 - y - 4))) (\<lambda>img2.
           Inr \<lparr>canvas = img2, used_indices = {0, 1}, count = 1,
                spans = [\<lparr>sp_pass = NamePass, sp_first = 0, sp_last = 1,
                          sp_repl = ''Bob Williams'', sp_box = (x, y, x2, y2)\<rparr>]\<rparr>))))"
proof -
  let ?st0 = "\<lparr>canvas = to_rgb P img0, used_indices = {}, count = 0, spans = []\<rparr>"
  let ?lc = "[(''alan williams'', ''Bob Williams''), (''williams'', ''X'')]"
  have w: "name_window_match [t0, t1] {} 0 [''alan'', ''williams''] = Inr True"
    using assms(2-5) alan_fuzzy by simp
  have r: "[0..<Suc (length [t0, t1]) - length [''alan'', ''williams'']] = [0]"
    by simp
  have p1: "for_each (name_term_step P [t0, t1] ?lc) [''alan williams'', ''williams''] ?st0 =
      redact_name_span P [t0, t1] ?lc ''alan williams'' [''alan'', ''williams''] 0 ?st0"
    unfolding for_each.simps name_term_step_def alan_split Let_def r name_step_def
    using w by (simp split: sum.splits)
  have rest: "bind_err (for_each (word_step P [t0, t1] ?lc []) [0, Suc 0] st)
      (for_each (extra_term_step P [t0, t1]) []) = Inr st"
    if "used_indices st = {0, Suc 0}" for st :: "'a redaction"
    using that by (simp add: word_step_def bind_err_def)
  have sp: "redact_name_span P [t0, t1] ?lc ''alan williams'' [''alan'', ''williams''] 0 ?st0 =
     (let x = t_left t0; y = min (t_top t1) (t_top t0);
          x2 = t_left t1 + t_width t1;
          y2 = max (t_top t1 + t_height t1) (t_top t0 + t_height t0)
      in bind_err (sample_bg_color P (to_rgb P img0) x y (x2 - x) (y2 - y) 4) (\<lambda>bg.
         bind_err (draw_rectangle P (to_rgb P img0) (x, y, x2, y2) bg) (\<lambda>img1.
         bind_err (draw_text P img1 (x + 2, y + 1) ''Bob Williams'' (text_color bg)
                     (max 10 (y2 - y - 4))) (\<lambda>img2.
           Inr \<lparr>canvas = img2, used_indices = {0, 1}, count = 1,
                spans = [\<lparr>sp_pass = NamePass, sp_first = 0, sp_last = 1,
                          sp_repl = ''Bob Williams'', sp_box = (x, y, x2, y2)\<rparr>]\<rparr>))))"
  proof -
    have u: "set [0..<0 + length [''alan'', ''williams'']] = {0, 1}"
      by (auto simp: upt_conv_Cons)
    show ?thesis
      unfolding redact_name_span_def u
      by (simp add: dict_get_def window_def span_box_def Let_def bind_err_def)
  qed
  have run: "redact_run P ocr img0 [(''Alan Williams'', ''Bob Williams''), (''Williams'', ''X'')] None =
      bind_err (for_each (name_term_step P [t0, t1] ?lc) [''alan williams'', ''williams''] ?st0)
        (\<lambda>st1. bind_err (for_each (word_step P [t0, t1] ?lc []) [0..<length [t0, t1]] st1)
        (\<lambda>st2. for_each (extra_term_step P [t0, t1]) [] st2))"
    using assms(1) by (simp add: redact_run_def Let_def alan_lc alan_sorted del: for_each.simps)
  show ?thesis
    unfolding run p1 sp Let_def
    by (simp add: bind_err_assoc bind_err_Inr rest del: for_each.simps)
qed

theorem alan_williams_priority_witness:
  "(\<lambda>im :: raster. Inr [tok ''Alan'' 90 10 10 40 12, tok ''Williams'' 85 60 12 80 12] :: error + token list)
     (to_rgb raster_pil white_page) = Inr [tok ''Alan'' 90 10 10 40 12, tok ''Williams'' 85 60 12 80 12] \<and>
   t_text (tok ''Alan'' 90 10 10 40 12) = ''Alan'' \<and>
   t_text (tok ''Williams'' 85 60 12 80 12) = ''Williams'' \<and>
   0 \<le> t_conf (tok ''Alan'' 90 10 10 40 12) \<and> 0 \<le> t_conf (tok ''Williams'' 85 60 12 80 12) \<and>
   redact_run raster_pil (\<lambda>im. Inr [tok ''Alan'' 90 10 10 40 12, tok ''Williams'' 85 60 12 80 12])
     white_page [(''Alan Williams'', ''Bob Williams''), (''Williams'', ''X'')] None =
   Inr \<lparr>canvas = white_page\<lparr>r_ops := [Rect (10, 10, 140, 24) [255, 255, 255],
                                       Label (12, 11) ''Bob Williams'' [0, 0, 0] 10]\<rparr>,
        used_indices = {0, 1}, count = 1,
        spans = [\<lparr>sp_pass = NamePass, sp_first = 0, sp_last = 1, sp_repl = ''Bob Williams'',
                  sp_box = (10, 10, 140, 24)\<rparr>]\<rparr>"
proof -
  let ?t0 = "tok ''Alan'' 90 10 10 40 12" and ?t1 = "tok ''Williams'' 85 60 12 80 12"
  have h: "t_text ?t0 = ''Alan''" "t_text ?t1 = ''Williams''" "0 \<le> t_conf ?t0" "0 \<le> t_conf ?t1"
    by (simp_all add: tok_def)
  have bg: "sample_bg_color raster_pil white_page 10 10 130 14 4 = Inr [255, 255, 255]"
    by code_simp
  have rgb: "to_rgb raster_pil white_page = white_page"
    by (simp add: to_rgb_def raster_pil_def white_page_def)
  have "redact_run raster_pil (\<lambda>im. Inr [?t0, ?t1]) white_page
      [(''Alan Williams'', ''Bob Williams''), (''Williams'', ''X'')] None =
    Inr \<lparr>canvas = white_page\<lparr>r_ops := [Rect (10, 10, 140, 24) [255, 255, 255],
                                       Label (12, 11) ''Bob Williams'' [0, 0, 0] 10]\<rparr>,
        used_indices = {0, 1}, count = 1,
        spans = [\<lparr>sp_pass = NamePass, sp_first = 0, sp_last = 1, sp_repl = ''Bob Williams'',
                  sp_box = (10, 10, 140, 24)\<rparr>]\<rparr>"
    using alan_williams_priority [of "\<lambda>im. Inr [?t0, ?t1]" raster_pil white_page ?t0 ?t1] h
    apply (simp add: rgb tok_def bg bind_err_def text_color_def)
    apply (simp add: raster_pil_def white_page_def)
    done
  with h show ?thesis by simp
qed

subsection \<open>The invariant of the passes\<close>

lemma for_each_invariant:
  assumes "I st" and "for_each body xs st = Inr st'"
    and "\<And>x s s'. x \<in> set xs \<Longrightarrow> I s \<Longrightarrow> body x s = Inr s' \<Longrightarrow> I s'"
  shows "I st'"
  using assms
proof (induction xs arbitrary: st)
  case Nil
  then show ?case by simp
next
  case (Cons x xs)
  from Cons.prems(2) obtain s1 where b: "body x st = Inr s1" and r: "for_each body xs s1 = Inr st'"
    by (auto split: sum.splits)
  from Cons.prems(3) [of x st s1] Cons.prems(1) b have "I s1" by simp
  show ?case
  proof (rule Cons.IH [OF \<open>I s1\<close> r])
    fix y s s' assume "y \<in> set xs" "I s" "body y s = Inr s'"
    with Cons.prems(3) [of y s s'] show "I s'" by simp
  qed
qed

lemma name_window_match_True:
  "name_window_match toks used idx nws = Inr True \<Longrightarrow> j < length nws \<Longrightarrow>
     idx + j \<notin> used \<and> idx + j < length toks \<and> 0 \<le> t_conf (toks ! (idx + j))"
proof (induction nws arbitrary: idx j)
  case Nil
  then show ?case by simp
next
  case (Cons nw nws)
  from Cons.prems(1) have h: "idx \<notin> used" "idx < length toks" "0 \<le> t_conf (toks ! idx)"
    and r: "name_window_match toks used (Suc idx) nws = Inr True"
    by (auto split: if_splits)
  show ?case
  proof (cases j)
    case 0
    with h show ?thesis by simp
  next
    case (Suc j')
    with Cons.prems(2) have "j' < length nws" by simp
    from Cons.IH [OF r this] Suc show ?thesis by simp
  qed
qed

lemma extra_window_match_True:
  "extra_window_match toks used idx tws = Inr True \<Longrightarrow> j < length tws \<Longrightarrow>
     idx + j \<notin> used \<and> idx + j < length toks"
proof (induction tws arbitrary: idx j)
  case Nil
  then show ?case by simp
next
  case (Cons tw tws)
  from Cons.prems(1) have h: "idx \<notin> used" "idx < length toks"
    and r: "extra_window_match toks used (Suc idx) tws = Inr True"
    by (auto split: if_splits)
  show ?case
  proof (cases j)
    case 0
    with h show ?thesis by simp
  next
    case (Suc j')
    with Cons.prems(2) have "j' < length tws" by simp
    from Cons.IH [OF r this] Suc show ?thesis by simp
  qed
qed

lemma set_window: "i + k \<le> length xs \<Longrightarrow> set (take k (drop i xs)) = (!) xs ` {i..<i + k}"
proof -
  assume a: "i + k \<le> length xs"
  have e: "take k (drop i xs) ! j = xs ! (i + j)" if "j < k" for j
    using a that by simp
  have "set (take k (drop i xs)) = {take k (drop i xs) ! j | j. j < k}"
    using a by (simp add: set_conv_nth)
  also have "\<dots> = {xs ! (i + j) | j. j < k}"
    using e by metis
  also have "\<dots> = (!) xs ` {i..<i + k}"
  proof (intro set_eqI iffI)
    fix x assume "x \<in> {xs ! (i + j) | j. j < k}"
    then obtain j where "x = xs ! (i + j)" "j < k" by blast
    then show "x \<in> (!) xs ` {i..<i + k}" by auto
  next
    fix x assume "x \<in> (!) xs ` {i..<i + k}"
    then obtain m where m: "x = xs ! m" "i \<le> m" "m < i + k" by auto
    then have "x = xs ! (i + (m - i))" "m - i < k" by auto
    then show "x \<in> {xs ! (i + j) | j. j < k}" by blast
  qed
  finally show ?thesis .
qed

lemma span_box_window:
  assumes "i + k \<le> length toks" and "0 < k" and "span_box (take k (drop i toks)) = Inr bx"
  shows "bx = (t_left (toks ! i),
               Min (t_top ` (!) toks ` {i..<i + k}),
               t_left (toks ! (i + k - 1)) + t_width (toks ! (i + k - 1)),
               Max ((\<lambda>t. t_top t + t_height t) ` (!) toks ` {i..<i + k}))"
proof -
  let ?ws = "take k (drop i toks)"
  from assms(1, 2) have len: "length ?ws = k" by simp
  with assms(2) obtain t ts where ws: "?ws = t # ts" by (cases ?ws) auto
  have t: "t = toks ! i"
  proof -
    have "?ws ! 0 = toks ! (i + 0)" using assms(1, 2) by simp
    with ws show ?thesis by simp
  qed
  have l: "last ?ws = toks ! (i + k - 1)"
  proof -
    have "?ws \<noteq> []" using ws by simp
    then have "last ?ws = ?ws ! (length ?ws - 1)" by (rule last_conv_nth)
    then have "last ?ws = ?ws ! (k - 1)" unfolding len .
    also have "\<dots> = toks ! (i + (k - 1))" using assms(1, 2) by simp
    finally show ?thesis using assms(2) by simp
  qed
  have mn: "fold min (map t_top ts) (t_top t) = Min (t_top ` set ?ws)"
    using Min.set_eq_fold [of "t_top t" "map t_top ts"] ws by simp
  have mx: "fold max (map (\<lambda>u. t_top u + t_height u) ts) (t_top t + t_height t) =
      Max ((\<lambda>u. t_top u + t_height u) ` set ?ws)"
    using Max.set_eq_fold [of "t_top t + t_height t" "map (\<lambda>u. t_top u + t_height u) ts"] ws
    by simp
  from assms(3) have "bx = (t_left t, fold min (map t_top ts) (t_top t),
      t_left (last ?ws) + t_width (last ?ws),
      fold max (map (\<lambda>u. t_top u + t_height u) ts) (t_top t + t_height t))"
    unfolding span_box_def ws [symmetric] using ws by (simp split: list.splits)
  then show ?thesis
    using mn mx l t set_window [OF assms(1)] by simp
qed

lemma trace_ok_add:
  assumes "trace_ok toks st" and "good_span toks s"
    and "span_indices s \<inter> used_indices st = {}"
    and "used_indices st' = used_indices st \<union> span_indices s"
    and "spans st' = spans st @ [s]"
  shows "trace_ok toks st'"
proof -
  from assms(1) have old: "\<And>u. u \<in> set (spans st) \<Longrightarrow> good_span toks u \<and> span_indices u \<subseteq> used_indices st"
    and dis: "disjoint_spans (spans st)"
    by (auto simp: trace_ok_def)
  have "disjoint_spans (spans st @ [s])"
    unfolding disjoint_spans_def
  proof (intro allI impI)
    fix i j assume ij: "i < j \<and> j < length (spans st @ [s])"
    show "span_indices ((spans st @ [s]) ! i) \<inter> span_indices ((spans st @ [s]) ! j) = {}"
    proof (cases "j < length (spans st)")
      case True
      with ij dis show ?thesis
        by (simp add: disjoint_spans_def nth_append)
    next
      case False
      with ij have j: "j = length (spans st)" and i: "i < length (spans st)" by auto
      from i have "spans st ! i \<in> set (spans st)" by simp
      from old [OF this] assms(3) have "span_indices (spans st ! i) \<inter> span_indices s = {}"
        by blast
      with i j show ?thesis by (simp add: nth_append)
    qed
  qed
  moreover have "\<forall>u \<in> set (spans st @ [s]). good_span toks u \<and> span_indices u \<subseteq> used_indices st'"
    using old assms(2, 4) by auto
  ultimately show ?thesis
    by (simp add: trace_ok_def assms(5))
qed

lemma redact_name_span_Inr:
  assumes "redact_name_span P toks lc_map name_lc nws i st = Inr st'"
  shows "\<exists>repl bx. span_box (take (length nws) (drop i toks)) = Inr bx \<and>
      i + length nws \<le> length toks \<and>
      used_indices st' = used_indices st \<union> set [i..<i + length nws] \<and>
      spans st' = spans st @
        [\<lparr>sp_pass = NamePass, sp_first = i, sp_last = i + length nws - 1,
          sp_repl = repl, sp_box = bx\<rparr>] \<and>
      count st' = count st + 1"
  using assms
  by (auto simp: redact_name_span_def bind_err_def window_def Let_def
      split: sum.splits if_splits prod.splits)

lemma redact_extra_span_Inr:
  assumes "redact_extra_span P toks tws i st = Inr st'"
  shows "\<exists>bx. span_box (take (length tws) (drop i toks)) = Inr bx \<and>
      i + length tws \<le> length toks \<and>
      used_indices st' = used_indices st \<union> set [i..<i + length tws] \<and>
      spans st' = spans st @
        [\<lparr>sp_pass = ExtraPass, sp_first = i, sp_last = i + length tws - 1,
          sp_repl = [], sp_box = bx\<rparr>] \<and>
      count st' = count st + 1"
  using assms
  by (auto simp: redact_extra_span_def bind_err_def window_def Let_def
      split: sum.splits if_splits prod.splits)

lemma redact_word_Inr:
  assumes "redact_word P t i repl st = Inr st'"
  shows "\<exists>bx. used_indices st' = insert i (used_indices st) \<and>
      spans st' = spans st @
        [\<lparr>sp_pass = WordPass, sp_first = i, sp_last = i, sp_repl = repl, sp_box = bx\<rparr>] \<and>
      count st' = count st + 1"
  using assms
  by (auto simp: redact_word_def bind_err_def Let_def split: sum.splits if_splits)

lemma name_step_ok:
  assumes "trace_ok toks st" and "2 \<le> length nws"
    and "name_step P toks lc_map name_lc nws i st = Inr st'"
  shows "trace_ok toks st'"
proof (cases "i \<notin> used_indices st \<and> name_window_match toks (used_indices st) i nws = Inr True")
  case False
  with assms(3) have "st' = st"
    by (auto simp: name_step_def split: if_splits sum.splits)
  with assms(1) show ?thesis by simp
next
  case True
  with assms(3) have r: "redact_name_span P toks lc_map name_lc nws i st = Inr st'"
    by (simp add: name_step_def)
  from redact_name_span_Inr [OF r] obtain repl bx where
    bx: "span_box (take (length nws) (drop i toks)) = Inr bx" and
    le: "i + length nws \<le> length toks" and
    u: "used_indices st' = used_indices st \<union> set [i..<i + length nws]" and
    sp: "spans st' = spans st @
        [\<lparr>sp_pass = NamePass, sp_first = i, sp_last = i + length nws - 1,
          sp_repl = repl, sp_box = bx\<rparr>]"
    by blast
  let ?s = "\<lparr>sp_pass = NamePass, sp_first = i, sp_last = i + length nws - 1,
          sp_repl = repl, sp_box = bx\<rparr>"
  from assms(2) have ix: "span_indices ?s = {i..<i + length nws}"
    by (auto simp: span_indices_def)
  have w: "m \<notin> used_indices st \<and> 0 \<le> t_conf (toks ! m)" if "m \<in> {i..<i + length nws}" for m
  proof -
    from that have "m - i < length nws" "i + (m - i) = m" by auto
    with name_window_match_True [of toks "used_indices st" i nws "m - i"] True
    show ?thesis by simp
  qed
  from assms(2) have "0 < length nws" by (cases nws) auto
  from span_box_window [OF le this bx]
  have b: "bx = (t_left (toks ! i),
               Min (t_top ` (!) toks ` {i..<i + length nws}),
               t_left (toks ! (i + length nws - 1)) + t_width (toks ! (i + length nws - 1)),
               Max ((\<lambda>t. t_top t + t_height t) ` (!) toks ` {i..<i + length nws}))" .
  have g: "good_span toks ?s"
    unfolding good_span_def ix using assms(2) le w b by auto
  have d: "span_indices ?s \<inter> used_indices st = {}"
    unfolding ix using w by blast
  from u ix have u': "used_indices st' = used_indices st \<union> span_indices ?s" by simp
  from trace_ok_add [OF assms(1) g d u' sp] show ?thesis .
qed

lemma extra_step_ok:
  assumes "trace_ok toks st" and "2 \<le> length tws"
    and "extra_step P toks tws i st = Inr st'"
  shows "trace_ok toks st'"
proof (cases "i \<notin> used_indices st \<and> extra_window_match toks (used_indices st) i tws = Inr True")
  case False
  with assms(3) have "st' = st"
    by (auto simp: extra_step_def split: if_splits sum.splits)
  with assms(1) show ?thesis by simp
next
  case True
  with assms(3) have r: "redact_extra_span P toks tws i st = Inr st'"
    by (simp add: extra_step_def)
  from redact_extra_span_Inr [OF r] obtain bx where
    bx: "span_box (take (length tws) (drop i toks)) = Inr bx" and
    le: "i + length tws \<le> length toks" and
    u: "used_indices st' = used_indices st \<union> set [i..<i + length tws]" and
    sp: "spans st' = spans st @
        [\<lparr>sp_pass = ExtraPass, sp_first = i, sp_last = i + length tws - 1,
          sp_repl = [], sp_box = bx\<rparr>]"
    by blast
  let ?s = "\<lparr>sp_pass = ExtraPass, sp_first = i, sp_last = i + length tws - 1,
          sp_repl = [], sp_box = bx\<rparr>"
  from assms(2) have ix: "span_indices ?s = {i..<i + length tws}"
    by (auto simp: span_indices_def)
  have w: "m \<notin> used_indices st" if "m \<in> {i..<i + length tws}" for m
  proof -
    from that have "m - i < length tws" "i + (m - i) = m" by auto
    with extra_window_match_True [of toks "used_indices st" i tws "m - i"] True
    show ?thesis by simp
  qed
  from assms(2) have "0 < length tws" by (cases tws) auto
  from span_box_window [OF le this bx]
  have b: "bx = (t_left (toks ! i),
               Min (t_top ` (!) toks ` {i..<i + length tws}),
               t_left (toks ! (i + length tws - 1)) + t_width (toks ! (i + length tws - 1)),
               Max ((\<lambda>t. t_top t + t_height t) ` (!) toks ` {i..<i + length tws}))" .
  have g: "good_span toks ?s"
    unfolding good_span_def ix using assms(2) le b by auto
  have d: "span_indices ?s \<inter> used_indices st = {}"
    unfolding ix using w by blast
  from u ix have u': "used_indices st' = used_indices st \<union> span_indices ?s" by simp
  from trace_ok_add [OF assms(1) g d u' sp] show ?thesis .
qed

lemma word_step_ok:
  assumes "trace_ok toks st" and "word_step P toks lc_map extra_lc i st = Inr st'"
  shows "trace_ok toks st'"
proof (cases "st' = st")
  case True
  with assms(1) show ?thesis by simp
next
  case False
  with assms(2) obtain repl where
    c: "i \<notin> used_indices st" "i < length toks" "0 \<le> t_conf (toks ! i)" and
    r: "redact_word P (toks ! i) i repl st = Inr st'"
    by (auto simp: word_step_def Let_def split: if_splits option.splits)
  from redact_word_Inr [OF r] obtain bx where
    u: "used_indices st' = insert i (used_indices st)" and
    sp: "spans st' = spans st @
        [\<lparr>sp_pass = WordPass, sp_first = i, sp_last = i, sp_repl = repl, sp_box = bx\<rparr>]"
    by blast
  let ?s = "\<lparr>sp_pass = WordPass, sp_first = i, sp_last = i, sp_repl = repl, sp_box = bx\<rparr>"
  have ix: "span_indices ?s = {i}" by (simp add: span_indices_def)
  have g: "good_span toks ?s" unfolding good_span_def ix using c by simp
  have d: "span_indices ?s \<inter> used_indices st = {}" unfolding ix using c by simp
  from u ix have u': "used_indices st' = used_indices st \<union> span_indices ?s" by simp
  from trace_ok_add [OF assms(1) g d u' sp] show ?thesis .
qed

lemma name_term_step_ok:
  assumes "trace_ok toks st" and "name_term_step P toks lc_map name_lc st = Inr st'"
  shows "trace_ok toks st'"
proof (cases "length (split name_lc) < 2")
  case True
  with assms show ?thesis by (simp add: name_term_step_def)
next
  case False
  with assms(2) have f: "for_each (name_step P toks lc_map name_lc (split name_lc))
             [0..<Suc (length toks) - length (split name_lc)] st = Inr st'"
    by (simp add: name_term_step_def Let_def)
  show ?thesis
  proof (rule for_each_invariant [of "trace_ok toks", OF assms(1) f])
    fix i s s' assume "trace_ok toks s" "name_step P toks lc_map name_lc (split name_lc) i s = Inr s'"
    with False show "trace_ok toks s'" using name_step_ok [of toks s "split name_lc" P lc_map name_lc i s']
      by simp
  qed
qed

lemma extra_term_step_ok:
  assumes "trace_ok toks st" and "extra_term_step P toks trm st = Inr st'"
  shows "trace_ok toks st'"
proof (cases "length (split trm) < 2")
  case True
  with assms show ?thesis by (simp add: extra_term_step_def)
next
  case False
  with assms(2) have f: "for_each (extra_step P toks (split trm))
             [0..<Suc (length toks) - length (split trm)] st = Inr st'"
    by (simp add: extra_term_step_def Let_def)
  show ?thesis
  proof (rule for_each_invariant [of "trace_ok toks", OF assms(1) f])
    fix i s s' assume "trace_ok toks s" "extra_step P toks (split trm) i s = Inr s'"
    with False show "trace_ok toks s'" using extra_step_ok [of toks s "split trm" P i s']
      by simp
  qed
qed

lemma redact_run_trace_ok:
  assumes "ocr (to_rgb P img0) = Inr toks"
    and "redact_run P ocr img0 name_map extra_redact = Inr st"
  shows "trace_ok toks st"
proof -
  let ?st0 = "\<lparr>canvas = to_rgb P img0, used_indices = {}, count = 0, spans = []\<rparr>"
  let ?lc = "lc_map_of name_map"
  let ?ex = "map lower (case extra_redact of None \<Rightarrow> [] | Some l \<Rightarrow> l)"
  from assms obtain st1 st2 where
    p1: "for_each (name_term_step P toks ?lc) (sorted_names ?lc) ?st0 = Inr st1" and
    p2: "for_each (word_step P toks ?lc ?ex) [0..<length toks] st1 = Inr st2" and
    p3: "for_each (extra_term_step P toks) ?ex st2 = Inr st"
    by (auto simp: redact_run_def Let_def bind_err_def split: sum.splits)
  have "trace_ok toks ?st0"
    by (simp add: trace_ok_def disjoint_spans_def)
  then have "trace_ok toks st1"
    by (rule for_each_invariant [OF _ p1]) (rule name_term_step_ok)
  then have "trace_ok toks st2"
    by (rule for_each_invariant [OF _ p2]) (rule word_step_ok)
  then show "trace_ok toks st"
    by (rule for_each_invariant [OF _ p3]) (rule extra_term_step_ok)
qed

lemma redact_run_engine_missing_trace:
  assumes "ocr (to_rgb P img0) = Inl e"
    and "redact_run P ocr img0 name_map extra_redact = Inr st"
  shows "spans st = []"
  using assms by (auto simp: redact_run_def Let_def split: if_splits)

subsection \<open>The canvas is the replay of the trace\<close>

lemma redact_name_span_paints:
  assumes "redact_name_span P toks lc_map name_lc nws i st = Inr st'"
  shows "\<exists>s. spans st' = spans st @ [s] \<and> paint_span P s (canvas st) = Inr (canvas st')"
proof -
  from assms obtain repl x y x2 y2 bg img1 where
    a: "sample_bg_color P (canvas st) x y (x2 - x) (y2 - y) 4 = Inr bg"
      "draw_rectangle P (canvas st) (x, y, x2, y2) bg = Inr img1"
      "draw_text P img1 (x + 2, y + 1) repl (text_color bg) (max 10 (y2 - y - 4)) = Inr (canvas st')"
      "spans st' = spans st @
         [\<lparr>sp_pass = NamePass, sp_first = i, sp_last = i + length nws - 1,
           sp_repl = repl, sp_box = (x, y, x2, y2)\<rparr>]"
    by (auto simp: redact_name_span_def bind_err_def Let_def split: sum.splits prod.splits)
  let ?s = "\<lparr>sp_pass = NamePass, sp_first = i, sp_last = i + length nws - 1,
           sp_repl = repl, sp_box = (x, y, x2, y2)\<rparr>"
  from a(1-3) have "paint_span P ?s (canvas st) = Inr (canvas st')"
    by (simp add: paint_span_def bind_err_def)
  with a(4) show ?thesis by blast
qed

lemma redact_extra_span_paints:
  assumes "redact_extra_span P toks tws i st = Inr st'"
  shows "\<exists>s. spans st' = spans st @ [s] \<and> paint_span P s (canvas st) = Inr (canvas st')"
proof -
  from assms obtain x y x2 y2 bg where
    a: "sample_bg_color P (canvas st) x y (x2 - x) (y2 - y) 4 = Inr bg"
      "draw_rectangle P (canvas st) (x, y, x2, y2) bg = Inr (canvas st')"
      "spans st' = spans st @
         [\<lparr>sp_pass = ExtraPass, sp_first = i, sp_last = i + length tws - 1,
           sp_repl = [], sp_box = (x, y, x2, y2)\<rparr>]"
    by (auto simp: redact_extra_span_def bind_err_def Let_def split: sum.splits prod.splits)
  let ?s = "\<lparr>sp_pass = ExtraPass, sp_first = i, sp_last = i + length tws - 1,
           sp_repl = [], sp_box = (x, y, x2, y2)\<rparr>"
  from a(1, 2) have "paint_span P ?s (canvas st) = Inr (canvas st')"
    by (simp add: paint_span_def bind_err_def)
  with a(3) show ?thesis by blast
qed

lemma redact_word_paints:
  assumes "redact_word P t i repl st = Inr st'"
  shows "\<exists>s. spans st' = spans st @ [s] \<and> paint_span P s (canvas st) = Inr (canvas st')"
proof -
  let ?x = "t_left t" and ?y = "t_top t"
  let ?s = "\<lparr>sp_pass = WordPass, sp_first = i, sp_last = i, sp_repl = repl,
           sp_box = (?x, ?y, ?x + t_width t, ?y + t_height t)\<rparr>"
  from assms obtain bg img1 where
    a: "sample_bg_color P (canvas st) ?x ?y (t_width t) (t_height t) 4 = Inr bg"
      "draw_rectangle P (canvas st) (?x, ?y, ?x + t_width t, ?y + t_height t) bg = Inr img1"
      "(if repl \<noteq> []
        then draw_text P img1 (?x + 2, ?y + 1) repl (text_color bg) (max 10 (t_height t - 4))
        else Inr img1) = Inr (canvas st')"
      "spans st' = spans st @ [?s]"
    by (auto simp: redact_word_def bind_err_def Let_def split: sum.splits)
  from a(1-3) have "paint_span P ?s (canvas st) = Inr (canvas st')"
    by (auto simp: paint_span_def bind_err_def split: if_splits)
  with a(4) show ?thesis by blast
qed

lemma replay_add:
  assumes "for_each (paint_span P) (spans st) c0 = Inr (canvas st)"
    and "\<exists>s. spans st' = spans st @ [s] \<and> paint_span P s (canvas st) = Inr (canvas st')"
  shows "for_each (paint_span P) (spans st') c0 = Inr (canvas st')"
  using assms by (auto simp: for_each_append bind_err_def)

lemma name_step_replay:
  assumes "for_each (paint_span P) (spans st) c0 = Inr (canvas st)"
    and "name_step P toks lc_map name_lc nws i st = Inr st'"
  shows "for_each (paint_span P) (spans st') c0 = Inr (canvas st')"
proof (cases "st' = st")
  case True
  with assms(1) show ?thesis by simp
next
  case False
  with assms(2) have "redact_name_span P toks lc_map name_lc nws i st = Inr st'"
    by (auto simp: name_step_def split: if_splits sum.splits)
  from replay_add [OF assms(1) redact_name_span_paints [OF this]] show ?thesis .
qed

lemma extra_step_replay:
  assumes "for_each (paint_span P) (spans st) c0 = Inr (canvas st)"
    and "extra_step P toks tws i st = Inr st'"
  shows "for_each (paint_span P) (spans st') c0 = Inr (canvas st')"
proof (cases "st' = st")
  case True
  with assms(1) show ?thesis by simp
next
  case False
  with assms(2) have "redact_extra_span P toks tws i st = Inr st'"
    by (auto simp: extra_step_def split: if_splits sum.splits)
  from replay_add [OF assms(1) redact_extra_span_paints [OF this]] show ?thesis .
qed

lemma word_step_replay:
  assumes "for_each (paint_span P) (spans st) c0 = Inr (canvas st)"
    and "word_step P toks lc_map extra_lc i st = Inr st'"
  shows "for_each (paint_span P) (spans st') c0 = Inr (canvas st')"
proof (cases "st' = st")
  case True
  with assms(1) show ?thesis by simp
next
  case False
  with assms(2) obtain repl where "redact_word P (toks ! i) i repl st = Inr st'"
    by (auto simp: word_step_def Let_def split: if_splits option.splits)
  from replay_add [OF assms(1) redact_word_paints [OF this]] show ?thesis .
qed

lemma name_term_step_replay:
  assumes "for_each (paint_span P) (spans st) c0 = Inr (canvas st)"
    and "name_term_step P toks lc_map name_lc st = Inr st'"
  shows "for_each (paint_span P) (spans st') c0 = Inr (canvas st')"
proof (cases "length (split name_lc) < 2")
  case True
  with assms show ?thesis by (simp add: name_term_step_def)
next
  case False
  with assms(2) have f: "for_each (name_step P toks lc_map name_lc (split name_lc))
             [0..<Suc (length toks) - length (split name_lc)] st = Inr st'"
    by (simp add: name_term_step_def Let_def)
  show ?thesis
    by (rule for_each_invariant
        [of "\<lambda>s. for_each (paint_span P) (spans s) c0 = Inr (canvas s)", OF assms(1) f])
      (rule name_step_replay)
qed

lemma extra_term_step_replay:
  assumes "for_each (paint_span P) (spans st) c0 = Inr (canvas st)"
    and "extra_term_step P toks trm st = Inr st'"
  shows "for_each (paint_span P) (spans st') c0 = Inr (canvas st')"
proof (cases "length (split trm) < 2")
  case True
  with assms show ?thesis by (simp add: extra_term_step_def)
next
  case False
  with assms(2) have f: "for_each (extra_step P toks (split trm))
             [0..<Suc (length toks) - length (split trm)] st = Inr st'"
    by (simp add: extra_term_step_def Let_def)
  show ?thesis
    by (rule for_each_invariant
        [of "\<lambda>s. for_each (paint_span P) (spans s) c0 = Inr (canvas s)", OF assms(1) f])
      (rule extra_step_replay)
qed

lemma redact_run_replay:
  assumes "redact_run P ocr img0 name_map extra_redact = Inr st"
  shows "for_each (paint_span P) (spans st) (to_rgb P img0) = Inr (canvas st)"
proof (cases "ocr (to_rgb P img0)")
  case (Inl e)
  with assms show ?thesis
    by (auto simp: redact_run_def Let_def split: if_splits)
next
  case (Inr toks)
  let ?st0 = "\<lparr>canvas = to_rgb P img0, used_indices = {}, count = 0, spans = []\<rparr>"
  let ?lc = "lc_map_of name_map"
  let ?ex = "map lower (case extra_redact of None \<Rightarrow> [] | Some l \<Rightarrow> l)"
  let ?J = "\<lambda>s. for_each (paint_span P) (spans s) (to_rgb P img0) = Inr (canvas s)"
  from assms Inr obtain st1 st2 where
    p1: "for_each (name_term_step P toks ?lc) (sorted_names ?lc) ?st0 = Inr st1" and
    p2: "for_each (word_step P toks ?lc ?ex) [0..<length toks] st1 = Inr st2" and
    p3: "for_each (extra_term_step P toks) ?ex st2 = Inr st"
    by (auto simp: redact_run_def Let_def bind_err_def split: sum.splits)
  have "?J ?st0" by simp
  then have "?J st1"
    by (rule for_each_invariant [of ?J, OF _ p1]) (rule name_term_step_replay)
  then have "?J st2"
    by (rule for_each_invariant [of ?J, OF _ p2]) (rule word_step_replay)
  then show "?J st"
    by (rule for_each_invariant [of ?J, OF _ p3]) (rule extra_term_step_replay)
qed


lemma replay_member:
  assumes "for_each (paint_span P) sps c0 = Inr cn" and "s \<in> set sps"
    and "sp_box s = (x, y, x2, y2)"
  shows "\<exists>pre post c bg c1. sps = pre @ s # post \<and>
      for_each (paint_span P) pre c0 = Inr c \<and>
      sample_bg_color P c x y (x2 - x) (y2 - y) 4 = Inr bg \<and>
      draw_rectangle P c (x, y, x2, y2) bg = Inr c1"
proof -
  from split_list [OF assms(2)] obtain pre post where sp: "sps = pre @ s # post"
    by blast
  from assms(1) have "bind_err (for_each (paint_span P) pre c0)
      (for_each (paint_span P) (s # post)) = Inr cn"
    unfolding sp for_each_append .
  then obtain c where c: "for_each (paint_span P) pre c0 = Inr c"
    and r: "for_each (paint_span P) (s # post) c = Inr cn"
    by (auto simp: bind_err_def split: sum.splits)
  from r obtain c' where "paint_span P s c = Inr c'"
    by (auto split: sum.splits)
  with assms(3) obtain bg c1 where
    "sample_bg_color P c x y (x2 - x) (y2 - y) 4 = Inr bg"
    "draw_rectangle P c (x, y, x2, y2) bg = Inr c1"
    by (auto simp: paint_span_def bind_err_def split: sum.splits)
  with sp c show ?thesis by blast
qed

subsection \<open>The spans of a run\<close>

lemma demo_run:
  "redact_run raster_pil (\<lambda>im. Inr demo_tokens) white_page demo_names (Some demo_extra) =
   Inr \<lparr>canvas = white_page\<lparr>r_ops :=
             [Rect (10, 10, 140, 24) [255, 255, 255],
              Label (12, 11) ''Bob Williams'' [0, 0, 0] 10,
              Rect (200, 10, 290, 22) [255, 255, 255],
              Label (202, 11) ''Bob'' [0, 0, 0] 10,
              Rect (10, 40, 160, 54) [255, 255, 255]]\<rparr>,
        used_indices = {0, 1, 2, 3, 4}, count = 3,
        spans =
          [\<lparr>sp_pass = NamePass, sp_first = 0, sp_last = 1,
              sp_repl = ''Bob Williams'', sp_box = (10, 10, 140, 24)\<rparr>,
           \<lparr>sp_pass = WordPass, sp_first = 2, sp_last = 2,
              sp_repl = ''Bob'', sp_box = (200, 10, 290, 22)\<rparr>,
           \<lparr>sp_pass = ExtraPass, sp_first = 3, sp_last = 4, sp_repl = [],
              sp_box = (10, 40, 160, 54)\<rparr>]\<rparr>"
  by code_simp

text \<open>
  Claim C2. When \<open>redact_image\<close> finishes, no two spans of its trace share a token index:
  the index sets of the spans are pairwise disjoint.
\<close>

theorem spans_pairwise_disjoint:
  assumes "redact_run P ocr img0 name_map extra_redact = Inr st"
  shows "\<forall>i j. i < j \<and> j < length (spans st) \<longrightarrow>
           span_indices (spans st ! i) \<inter> span_indices (spans st ! j) = {}"
proof (cases "ocr (to_rgb P img0)")
  case (Inl e)
  from redact_run_engine_missing_trace [OF Inl assms] show ?thesis by simp
next
  case (Inr toks)
  from redact_run_trace_ok [OF Inr assms] show ?thesis
    by (simp add: trace_ok_def disjoint_spans_def)
qed

theorem spans_pairwise_disjoint_witness:
  "(\<exists>st. redact_run raster_pil (\<lambda>im. Inr demo_tokens) white_page demo_names (Some demo_extra) = Inr st \<and>
     map span_indices (spans st) = [{0, 1}, {2}, {3, 4}] \<and>
     span_indices (spans st ! 0) \<inter> span_indices (spans st ! 1) = {} \<and>
     span_indices (spans st ! 0) \<inter> span_indices (spans st ! 2) = {} \<and>
     span_indices (spans st ! 1) \<inter> span_indices (spans st ! 2) = {})"
proof -
  let ?st = "\<lparr>canvas = white_page\<lparr>r_ops :=
             [Rect (10, 10, 140, 24) [255, 255, 255],
              Label (12, 11) ''Bob Williams'' [0, 0, 0] 10,
              Rect (200, 10, 290, 22) [255, 255, 255],
              Label (202, 11) ''Bob'' [0, 0, 0] 10,
              Rect (10, 40, 160, 54) [255, 255, 255]]\<rparr>,
        used_indices = {0, 1, 2, 3, 4}, count = 3,
        spans =
          [\<lparr>sp_pass = NamePass, sp_first = 0, sp_last = 1,
              sp_repl = ''Bob Williams'', sp_box = (10, 10, 140, 24)\<rparr>,
           \<lparr>sp_pass = WordPass, sp_first = 2, sp_last = 2,
              sp_repl = ''Bob'', sp_box = (200, 10, 290, 22)\<rparr>,
           \<lparr>sp_pass = ExtraPass, sp_first = 3, sp_last = 4, sp_repl = [],
              sp_box = (10, 40, 160, 54)\<rparr>]\<rparr>"
  from spans_pairwise_disjoint [OF demo_run]
  have d: "\<And>i j. i < j \<Longrightarrow> j < length (spans ?st) \<Longrightarrow>
      span_indices (spans ?st ! i) \<inter> span_indices (spans ?st ! j) = {}"
    by blast
  have l: "length (spans ?st) = 3" by simp
  have m: "map span_indices (spans ?st) = [{0, 1}, {2}, {3, 4}]"
    by (auto simp: span_indices_def)
  have d01: "span_indices (spans ?st ! 0) \<inter> span_indices (spans ?st ! 1) = {}"
    by (rule d) simp_all
  have d02: "span_indices (spans ?st ! 0) \<inter> span_indices (spans ?st ! 2) = {}"
    by (rule d) simp_all
  have d12: "span_indices (spans ?st ! 1) \<inter> span_indices (spans ?st ! 2) = {}"
    by (rule d) simp_all
  show ?thesis
    by (intro exI [of _ ?st] conjI demo_run m d01 d02 d12)
qed

text \<open>
  Claim C3, as the code has it. The box painted for a span of several tokens (pass 1 or
  pass 3) has as left edge the left of the first token of the span, as right edge the
  left plus the width of the last token, as top the least top and as bottom the greatest
  top plus height over the tokens of the span. The vertical extent is that of the union of
  the boxes of the tokens; the horizontal extent is that of the union when no token of
  the span starts left of the first or ends right of the last. That box is what is
  painted: the image returned is the image worked on with the spans of the trace painted
  in order, and on the canvas left by the spans before this one, the background is
  sampled around that box and \<open>draw.rectangle\<close> is called with it and succeeds.
\<close>

theorem multiword_span_box:
  assumes "ocr (to_rgb P img0) = Inr toks"
    and "redact_run P ocr img0 name_map extra_redact = Inr st"
    and "s \<in> set (spans st)" and "sp_pass s \<noteq> WordPass"
  shows "sp_box s =
      (t_left (toks ! sp_first s),
       Min (t_top ` (!) toks ` span_indices s),
       t_left (toks ! sp_last s) + t_width (toks ! sp_last s),
       Max ((\<lambda>t. t_top t + t_height t) ` (!) toks ` span_indices s)) \<and>
     sp_first s < sp_last s \<and> sp_last s < length toks \<and>
     for_each (paint_span P) (spans st) (to_rgb P img0) = Inr (canvas st) \<and>
     (\<exists>pre post c bg c1.
        spans st = pre @ s # post \<and>
        for_each (paint_span P) pre (to_rgb P img0) = Inr c \<and>
        sample_bg_color P c
          (t_left (toks ! sp_first s))
          (Min (t_top ` (!) toks ` span_indices s))
          (t_left (toks ! sp_last s) + t_width (toks ! sp_last s) - t_left (toks ! sp_first s))
          (Max ((\<lambda>t. t_top t + t_height t) ` (!) toks ` span_indices s)
             - Min (t_top ` (!) toks ` span_indices s)) 4 = Inr bg \<and>
        draw_rectangle P c
          (t_left (toks ! sp_first s),
           Min (t_top ` (!) toks ` span_indices s),
           t_left (toks ! sp_last s) + t_width (toks ! sp_last s),
           Max ((\<lambda>t. t_top t + t_height t) ` (!) toks ` span_indices s)) bg = Inr c1)"
proof -
  from redact_run_trace_ok [OF assms(1, 2)] assms(3, 4)
  have b: "sp_box s =
      (t_left (toks ! sp_first s),
       Min (t_top ` (!) toks ` span_indices s),
       t_left (toks ! sp_last s) + t_width (toks ! sp_last s),
       Max ((\<lambda>t. t_top t + t_height t) ` (!) toks ` span_indices s))"
    and o: "sp_first s < sp_last s" "sp_last s < length toks"
    by (auto simp: trace_ok_def good_span_def)
  from redact_run_replay [OF assms(2)]
  have r: "for_each (paint_span P) (spans st) (to_rgb P img0) = Inr (canvas st)" .
  from replay_member [OF r assms(3) b] b o r show ?thesis
    by blast
qed

text \<open>
  The claim C3 as stated fails on a name broken over two lines: the second token starts at
  20, left of the first token at 200, and the box painted starts at 200, not at the least
  left 20.
\<close>

theorem multiword_span_box_counterexample:
  "redact_run raster_pil (\<lambda>im. Inr wrapped_tokens) white_page
     [(''Alan Williams'', ''Bob Williams'')] None =
   Inr \<lparr>canvas = white_page\<lparr>r_ops :=
             [Rect (200, 10, 250, 42) [255, 255, 255],
              Label (202, 11) ''Bob Williams'' [0, 0, 0] 28]\<rparr>,
        used_indices = {0, 1}, count = 1,
        spans =
          [\<lparr>sp_pass = NamePass, sp_first = 0, sp_last = 1,
              sp_repl = ''Bob Williams'', sp_box = (200, 10, 250, 42)\<rparr>]\<rparr> \<and>
   map t_left wrapped_tokens = [200, 20] \<and>
   map (\<lambda>t. t_left t + t_width t) wrapped_tokens = [240, 250] \<and>
   Min (t_left ` set wrapped_tokens) = 20 \<and> (200 :: int) \<noteq> 20"
  by code_simp

lemma extra_window_match_text_only:
  "map t_text toks' = map t_text toks \<Longrightarrow>
     extra_window_match toks' used idx tws = extra_window_match toks used idx tws"
proof (induction tws arbitrary: idx)
  case Nil
  show ?case by simp
next
  case (Cons tw tws)
  from Cons.prems have l: "length toks' = length toks"
    by (rule map_eq_imp_length_eq)
  have "t_text (toks' ! idx) = t_text (toks ! idx)" if "idx < length toks"
    using that l Cons.prems by (metis nth_map)
  with l Cons.IH [OF Cons.prems] show ?case by auto
qed

text \<open>
  Claim C7. In a finished run, no span of pass 1 or pass 2 has a token of negative
  confidence. Pass 3 has no such gate: whether a window matches an extra term depends on
  the texts of the tokens only, and on the tokens \<open>demo_tokens\<close> the span of pass 3 has
  the token 3, of confidence -1.
\<close>

theorem negative_confidence_gate:
  "(ocr (to_rgb P img0) = Inr toks \<and> redact_run P ocr img0 name_map extra_redact = Inr st \<longrightarrow>
      (\<forall>s \<in> set (spans st). sp_pass s \<noteq> ExtraPass \<longrightarrow>
         (\<forall>i \<in> span_indices s. 0 \<le> t_conf (toks ! i)))) \<and>
   (\<forall>toks' :: token list. map t_text toks' = map t_text toks \<longrightarrow>
      extra_window_match toks' used idx tws = extra_window_match toks used idx tws) \<and>
   (\<exists>st' s i. redact_run raster_pil (\<lambda>im. Inr demo_tokens) white_page demo_names
                 (Some demo_extra) = Inr st' \<and>
      s \<in> set (spans st') \<and> sp_pass s = ExtraPass \<and> i \<in> span_indices s \<and>
      t_conf (demo_tokens ! i) < 0)"
proof (intro conjI impI allI)
  assume a: "ocr (to_rgb P img0) = Inr toks \<and> redact_run P ocr img0 name_map extra_redact = Inr st"
  then have "trace_ok toks st"
    using redact_run_trace_ok [of ocr P img0 toks name_map extra_redact st] by simp
  then show "\<forall>s \<in> set (spans st). sp_pass s \<noteq> ExtraPass \<longrightarrow>
         (\<forall>i \<in> span_indices s. 0 \<le> t_conf (toks ! i))"
    by (auto simp: trace_ok_def good_span_def)
next
  fix toks' :: "token list" assume "map t_text toks' = map t_text toks"
  then show "extra_window_match toks' used idx tws = extra_window_match toks used idx tws"
    by (rule extra_window_match_text_only)
next
  let ?s = "\<lparr>sp_pass = ExtraPass, sp_first = 3, sp_last = 4, sp_repl = [],
              sp_box = (10, 40, 160, 54)\<rparr>"
  have "3 \<in> span_indices ?s" by (simp add: span_indices_def)
  moreover have "t_conf (demo_tokens ! 3) < 0" by (simp add: demo_tokens_def tok_def)
  ultimately show "\<exists>st' s i. redact_run raster_pil (\<lambda>im. Inr demo_tokens) white_page demo_names
                 (Some demo_extra) = Inr st' \<and>
      s \<in> set (spans st') \<and> sp_pass s = ExtraPass \<and> i \<in> span_indices s \<and>
      t_conf (demo_tokens ! i) < 0"
    using demo_run by (intro exI [of _ ?s] exI [of _ 3] exI) auto
qed


theorem multiword_span_box_witness:
  "(\<exists>st s c bg c1. (\<lambda>im :: raster. Inr demo_tokens :: error + token list) (to_rgb raster_pil white_page)
        = Inr demo_tokens \<and>
      redact_run raster_pil (\<lambda>im. Inr demo_tokens) white_page demo_names (Some demo_extra) = Inr st \<and>
      s \<in> set (spans st) \<and> sp_pass s \<noteq> WordPass \<and>
      sp_first s = 3 \<and> sp_last s = 4 \<and>
      sp_box s =
        (t_left (demo_tokens ! 3),
         Min (t_top ` (!) demo_tokens ` span_indices s),
         t_left (demo_tokens ! 4) + t_width (demo_tokens ! 4),
         Max ((\<lambda>t. t_top t + t_height t) ` (!) demo_tokens ` span_indices s)) \<and>
      sp_box s = (10, 40, 160, 54) \<and>
      for_each (paint_span raster_pil) (spans st) (to_rgb raster_pil white_page) = Inr (canvas st) \<and>
      sample_bg_color raster_pil c 10 40 (160 - 10) (54 - 40) 4 = Inr bg \<and>
      draw_rectangle raster_pil c (10, 40, 160, 54) bg = Inr c1)"
proof -
  let ?st = "\<lparr>canvas = white_page\<lparr>r_ops :=
             [Rect (10, 10, 140, 24) [255, 255, 255],
              Label (12, 11) ''Bob Williams'' [0, 0, 0] 10,
              Rect (200, 10, 290, 22) [255, 255, 255],
              Label (202, 11) ''Bob'' [0, 0, 0] 10,
              Rect (10, 40, 160, 54) [255, 255, 255]]\<rparr>,
        used_indices = {0, 1, 2, 3, 4}, count = 3,
        spans =
          [\<lparr>sp_pass = NamePass, sp_first = 0, sp_last = 1,
              sp_repl = ''Bob Williams'', sp_box = (10, 10, 140, 24)\<rparr>,
           \<lparr>sp_pass = WordPass, sp_first = 2, sp_last = 2,
              sp_repl = ''Bob'', sp_box = (200, 10, 290, 22)\<rparr>,
           \<lparr>sp_pass = ExtraPass, sp_first = 3, sp_last = 4, sp_repl = [],
              sp_box = (10, 40, 160, 54)\<rparr>]\<rparr>"
  let ?s = "\<lparr>sp_pass = ExtraPass, sp_first = 3, sp_last = 4, sp_repl = [],
              sp_box = (10, 40, 160, 54)\<rparr>"
  let ?L = "t_left (demo_tokens ! sp_first ?s)"
  let ?T = "Min (t_top ` (!) demo_tokens ` span_indices ?s)"
  let ?R = "t_left (demo_tokens ! sp_last ?s) + t_width (demo_tokens ! sp_last ?s)"
  let ?B = "Max ((\<lambda>t. t_top t + t_height t) ` (!) demo_tokens ` span_indices ?s)"
  have a: "?s \<in> set (spans ?st)" by simp
  have b: "sp_pass ?s \<noteq> WordPass" by simp
  from multiword_span_box [of "\<lambda>im. Inr demo_tokens" raster_pil white_page demo_tokens
      demo_names "Some demo_extra" ?st ?s, OF refl demo_run a b]
  obtain c bg c1 where
    c: "sp_box ?s = (?L, ?T, ?R, ?B)" and
    r: "for_each (paint_span raster_pil) (spans ?st) (to_rgb raster_pil white_page) = Inr (canvas ?st)" and
    p: "sample_bg_color raster_pil c ?L ?T (?R - ?L) (?B - ?T) 4 = Inr bg"
       "draw_rectangle raster_pil c (?L, ?T, ?R, ?B) bg = Inr c1"
    by blast
  have e: "sp_first ?s = 3" "sp_last ?s = 4" "sp_box ?s = (10, 40, 160, 54)" by simp_all
  from c have q0: "10 = ?L \<and> 40 = ?T \<and> 160 = ?R \<and> 54 = ?B"
    unfolding e(3) by (simp only: prod.inject)
  have q: "?L = 10" "?T = 40" "?R = 160" "?B = 54"
    using q0 by simp_all
  from c have c': "sp_box ?s =
        (t_left (demo_tokens ! 3),
         Min (t_top ` (!) demo_tokens ` span_indices ?s),
         t_left (demo_tokens ! 4) + t_width (demo_tokens ! 4),
         Max ((\<lambda>t. t_top t + t_height t) ` (!) demo_tokens ` span_indices ?s))"
    by simp
  from p have p': "sample_bg_color raster_pil c 10 40 (160 - 10) (54 - 40) 4 = Inr bg"
    "draw_rectangle raster_pil c (10, 40, 160, 54) bg = Inr c1"
    unfolding q by simp_all
  show ?thesis
    by (intro exI [of _ ?st] exI [of _ ?s] exI [of _ c] exI [of _ bg] exI [of _ c1]
        conjI refl demo_run a b e c' r p')
qed

theorem negative_confidence_gate_witness:
  "(\<exists>st. (\<lambda>im :: raster. Inr demo_tokens :: error + token list) (to_rgb raster_pil white_page)
        = Inr demo_tokens \<and>
      redact_run raster_pil (\<lambda>im. Inr demo_tokens) white_page demo_names (Some demo_extra) = Inr st \<and>
      map (\<lambda>s. (sp_pass s, sp_first s, sp_last s)) (spans st) =
        [(NamePass, 0, 1), (WordPass, 2, 2), (ExtraPass, 3, 4)] \<and>
      0 \<le> t_conf (demo_tokens ! 0) \<and> 0 \<le> t_conf (demo_tokens ! 1) \<and>
      0 \<le> t_conf (demo_tokens ! 2) \<and> t_conf (demo_tokens ! 3) < 0)"
proof -
  let ?st = "\<lparr>canvas = white_page\<lparr>r_ops :=
             [Rect (10, 10, 140, 24) [255, 255, 255],
              Label (12, 11) ''Bob Williams'' [0, 0, 0] 10,
              Rect (200, 10, 290, 22) [255, 255, 255],
              Label (202, 11) ''Bob'' [0, 0, 0] 10,
              Rect (10, 40, 160, 54) [255, 255, 255]]\<rparr>,
        used_indices = {0, 1, 2, 3, 4}, count = 3,
        spans =
          [\<lparr>sp_pass = NamePass, sp_first = 0, sp_last = 1,
              sp_repl = ''Bob Williams'', sp_box = (10, 10, 140, 24)\<rparr>,
           \<lparr>sp_pass = WordPass, sp_first = 2, sp_last = 2,
              sp_repl = ''Bob'', sp_box = (200, 10, 290, 22)\<rparr>,
           \<lparr>sp_pass = ExtraPass, sp_first = 3, sp_last = 4, sp_repl = [],
              sp_box = (10, 40, 160, 54)\<rparr>]\<rparr>"
  let ?s1 = "\<lparr>sp_pass = NamePass, sp_first = 0, sp_last = 1,
              sp_repl = ''Bob Williams'', sp_box = (10, 10, 140, 24)\<rparr>"
  let ?s2 = "\<lparr>sp_pass = WordPass, sp_first = 2, sp_last = 2,
              sp_repl = ''Bob'', sp_box = (200, 10, 290, 22)\<rparr>"
  from negative_confidence_gate [of "\<lambda>im. Inr demo_tokens" raster_pil white_page demo_tokens
      demo_names "Some demo_extra" ?st] demo_run
  have g: "\<And>s i. s \<in> set (spans ?st) \<Longrightarrow> sp_pass s \<noteq> ExtraPass \<Longrightarrow> i \<in> span_indices s \<Longrightarrow>
      0 \<le> t_conf (demo_tokens ! i)"
    by blast
  have c0: "0 \<le> t_conf (demo_tokens ! 0)"
    by (rule g [of ?s1]) (simp_all add: span_indices_def)
  have c1: "0 \<le> t_conf (demo_tokens ! 1)"
    by (rule g [of ?s1]) (simp_all add: span_indices_def)
  have c2: "0 \<le> t_conf (demo_tokens ! 2)"
    by (rule g [of ?s2]) (simp_all add: span_indices_def)
  have c3: "t_conf (demo_tokens ! 3) < 0"
    by (simp add: demo_tokens_def tok_def)
  have m: "map (\<lambda>s. (sp_pass s, sp_first s, sp_last s)) (spans ?st) =
        [(NamePass, 0, 1), (WordPass, 2, 2), (ExtraPass, 3, 4)]"
    by simp
  show ?thesis
    by (intro exI [of _ ?st] conjI refl demo_run m c0 c1 c2 c3)
qed

end
